theory Spec2Isabelle
  imports Complex_Main "HOL-Library.Multiset"
begin

section \<open>The workload characterisation plugin of Oclgrind\<close>

text \<open>
  A shallow embedding of \<^verbatim>\<open>WorkloadCharacterisation.cpp\<close>: the worker-local hooks, the merge
  at the end of a work-group, the host-transfer log, the report of \<^verbatim>\<open>kernelEnd\<close> and the
  destructor's transfer table.

  Conventions of the model.
  \<^item> \<^verbatim>\<open>size_t\<close> and \<^verbatim>\<open>unsigned\<close> counters are natural numbers; no counter of one kernel
    invocation is taken to reach \<open>2 ^ 32\<close>. The one wrap-around written is that of the sum
    of two counts in the median.
  \<^item> A \<^verbatim>\<open>double\<close> or \<^verbatim>\<open>float\<close> is a real number or one of the IEEE special values
    (type \<open>fp\<close>): rounding is not modelled, division by zero and \<^verbatim>\<open>isnan\<close> are.
  \<^item> A \<^verbatim>\<open>std::unordered_map\<close> is an association list with one entry per key, in the order
    in which the keys were first inserted (the iteration order of the container is
    unspecified; the model fixes one).
  \<^item> Dereferencing the end iterator of an empty container and reading a vector out of
    range are undefined behaviour in C++; the model returns an error there.
\<close>

subsection \<open>Errors and floating-point values\<close>

datatype error =
    EndIteratorDeref
  | IndexOutOfRange
  | BranchingError
  | NullContainer

definition ebind :: "error + 'a \<Rightarrow> ('a \<Rightarrow> error + 'b) \<Rightarrow> error + 'b" where
  "ebind m f = (case m of Inl e \<Rightarrow> Inl e | Inr x \<Rightarrow> f x)"

datatype fp = Fin real | PInf | NInf | NaN

text \<open>\<^verbatim>\<open>a / b\<close> on two finite floating-point values.\<close>

definition fdiv :: "real \<Rightarrow> real \<Rightarrow> fp" where
  "fdiv a b =
     (if b \<noteq> 0 then Fin (a / b)
      else if a = 0 then NaN
      else if 0 < a then PInf else NInf)"

text \<open>\<^verbatim>\<open>x * c\<close> for a finite positive constant \<open>c\<close>.\<close>

definition fscale :: "fp \<Rightarrow> real \<Rightarrow> fp" where
  "fscale x c = (case x of Fin r \<Rightarrow> Fin (r * c) | PInf \<Rightarrow> PInf | NInf \<Rightarrow> NInf | NaN \<Rightarrow> NaN)"

definition isnan :: "fp \<Rightarrow> bool" where
  "isnan x = (x = NaN)"

subsection \<open>Unordered maps\<close>

type_synonym ('k, 'v) unordered_map = "('k \<times> 'v) list"

text \<open>\<^verbatim>\<open>m[k] += n\<close> on a map of counters (\<^verbatim>\<open>m[k]++\<close> is \<open>um_add k 1\<close>): a missing key is
  inserted with the value-initialised counter 0 first.\<close>

fun um_add :: "'k \<Rightarrow> nat \<Rightarrow> ('k, nat) unordered_map \<Rightarrow> ('k, nat) unordered_map" where
  "um_add k n [] = [(k, n)]"
| "um_add k n ((k', v) # m) =
     (if k = k' then (k', v + n) # m else (k', v) # um_add k n m)"

text \<open>\<^verbatim>\<open>m[k].push_back(b)\<close> on a map of vectors.\<close>

fun um_push_back :: "'k \<Rightarrow> 'a \<Rightarrow> ('k, 'a list) unordered_map \<Rightarrow> ('k, 'a list) unordered_map" where
  "um_push_back k b [] = [(k, [b])]"
| "um_push_back k b ((k', v) # m) =
     (if k = k' then (k', v @ [b]) # m else (k', v) # um_push_back k b m)"

subsection \<open>The host's instruction and memory descriptors\<close>

text \<open>Modelled from the spec: the address-space tags of \<^verbatim>\<open>core/common.h\<close>, which is not among
  the sources. The plugin compares an address space with these names and, in the two
  atomic hooks, with the literal 0.\<close>

definition AddrSpacePrivate :: nat where "AddrSpacePrivate = 0"
definition AddrSpaceGlobal :: nat where "AddrSpaceGlobal = 1"
definition AddrSpaceConstant :: nat where "AddrSpaceConstant = 2"
definition AddrSpaceLocal :: nat where "AddrSpaceLocal = 3"

datatype opcode = Load | Store | Br | OtherOp string

fun getOpcodeName :: "opcode \<Rightarrow> string" where
  "getOpcodeName Load = ''load''"
| "getOpcodeName Store = ''store''"
| "getOpcodeName Br = ''br''"
| "getOpcodeName (OtherOp name) = name"

record operand =
  isLabelTy :: bool
  printAsOperand :: string

text \<open>What the plugin reads of an \<^verbatim>\<open>llvm::Instruction\<close>: its opcode, its operands, the label of
  its parent block, the name and address space of its pointer operand (loads and stores)
  and the line of its debug location.\<close>

record instruction =
  getOpcode :: opcode
  getOperands :: "operand list"
  getParent :: string
  getPointerOperandName :: string
  getPointerAddressSpace :: nat
  getDebugLocLine :: nat

subsection \<open>The worker state\<close>

text \<open>\<open>allocated\<close> stands for \<^verbatim>\<open>m_state.memoryOps != NULL\<close>: the containers of a worker are
  created by its first \<^verbatim>\<open>workGroupBegin\<close>.\<close>

record WorkerState =
  allocated :: bool
  memoryOps :: "nat list"
  computeOps :: "(string, nat) unordered_map"
  branchOps :: "(nat, bool list) unordered_map"
  instructionsBetweenBarriers :: "nat list"
  instructionWidth :: "(nat, nat) unordered_map"
  instructionsPerWorkitem :: "nat list"
  instructionsBetweenLoadOrStore :: "nat list"
  loadInstructionLabels :: "(string, nat) unordered_map"
  storeInstructionLabels :: "(string, nat) unordered_map"
  threads_invoked :: nat
  barriers_hit :: nat
  instruction_count :: nat
  workitem_instruction_count :: nat
  ops_between_load_or_store :: nat
  global_memory_access_count :: nat
  local_memory_access_count :: nat
  constant_memory_access_count :: nat
  previous_instruction_is_branch :: bool
  target1 :: string
  target2 :: string
  branch_loc :: nat

definition initial_worker :: WorkerState where
  "initial_worker =
     \<lparr>allocated = False, memoryOps = [], computeOps = [], branchOps = [],
      instructionsBetweenBarriers = [], instructionWidth = [], instructionsPerWorkitem = [],
      instructionsBetweenLoadOrStore = [], loadInstructionLabels = [],
      storeInstructionLabels = [], threads_invoked = 0, barriers_hit = 0,
      instruction_count = 0, workitem_instruction_count = 0, ops_between_load_or_store = 0,
      global_memory_access_count = 0, local_memory_access_count = 0,
      constant_memory_access_count = 0, previous_instruction_is_branch = False,
      target1 = [], target2 = [], branch_loc = 0\<rparr>"

subsection \<open>Worker-local hooks\<close>

text \<open>\<^verbatim>\<open>m_state.memoryOps->push_back(address)\<close>: the container must exist.\<close>

definition push_memory_op :: "nat \<Rightarrow> WorkerState \<Rightarrow> error + WorkerState" where
  "push_memory_op address s =
     (if allocated s then Inr (s\<lparr>memoryOps := memoryOps s @ [address]\<rparr>) else Inl NullContainer)"

definition memoryLoad :: "nat \<Rightarrow> nat \<Rightarrow> WorkerState \<Rightarrow> error + WorkerState" where
  "memoryLoad addressSpace address s =
     (if addressSpace \<noteq> AddrSpacePrivate then push_memory_op address s else Inr s)"

definition memoryStore :: "nat \<Rightarrow> nat \<Rightarrow> WorkerState \<Rightarrow> error + WorkerState" where
  "memoryStore addressSpace address s =
     (if addressSpace \<noteq> AddrSpacePrivate then push_memory_op address s else Inr s)"

definition memoryAtomicLoad :: "nat \<Rightarrow> nat \<Rightarrow> WorkerState \<Rightarrow> error + WorkerState" where
  "memoryAtomicLoad addressSpace address s =
     (if addressSpace \<noteq> 0 then push_memory_op address s else Inr s)"

definition memoryAtomicStore :: "nat \<Rightarrow> nat \<Rightarrow> WorkerState \<Rightarrow> error + WorkerState" where
  "memoryAtomicStore addressSpace address s =
     (if addressSpace \<noteq> 0 then push_memory_op address s else Inr s)"

text \<open>The blocks of \<^verbatim>\<open>instructionExecuted\<close>, in the order of the source.\<close>

definition count_memory_class :: "instruction \<Rightarrow> WorkerState \<Rightarrow> WorkerState" where
  "count_memory_class instruction s =
     (if getOpcode instruction = Load \<or> getOpcode instruction = Store then
        (let addressSpace = getPointerAddressSpace instruction in
         if addressSpace = AddrSpaceLocal then
           s\<lparr>local_memory_access_count := local_memory_access_count s + 1\<rparr>
         else if addressSpace = AddrSpaceGlobal then
           s\<lparr>global_memory_access_count := global_memory_access_count s + 1\<rparr>
         else if addressSpace = AddrSpaceConstant then
           s\<lparr>constant_memory_access_count := constant_memory_access_count s + 1\<rparr>
         else s)
      else s)"

definition record_load_or_store :: "instruction \<Rightarrow> WorkerState \<Rightarrow> WorkerState" where
  "record_load_or_store instruction s0 =
     (let s = s0\<lparr>ops_between_load_or_store := ops_between_load_or_store s0 + 1\<rparr> in
      if getOpcode instruction = Load then
        s\<lparr>loadInstructionLabels :=
             um_add (getPointerOperandName instruction) 1 (loadInstructionLabels s),
          instructionsBetweenLoadOrStore :=
             instructionsBetweenLoadOrStore s @ [ops_between_load_or_store s],
          ops_between_load_or_store := 0\<rparr>
      else if getOpcode instruction = Store then
        s\<lparr>storeInstructionLabels :=
             um_add (getPointerOperandName instruction) 1 (storeInstructionLabels s),
          instructionsBetweenLoadOrStore :=
             instructionsBetweenLoadOrStore s @ [ops_between_load_or_store s],
          ops_between_load_or_store := 0\<rparr>
      else s)"

text \<open>The instruction after a conditional branch tells which way the branch went;
  \<^verbatim>\<open>std::raise(SIGINT)\<close> ends the run.\<close>

definition classify_branch :: "instruction \<Rightarrow> WorkerState \<Rightarrow> error + WorkerState" where
  "classify_branch instruction s =
     (if previous_instruction_is_branch s then
        (if getParent instruction = target1 s then
           Inr (s\<lparr>branchOps := um_push_back (branch_loc s) True (branchOps s),
                  previous_instruction_is_branch := False\<rparr>)
         else if getParent instruction = target2 s then
           Inr (s\<lparr>branchOps := um_push_back (branch_loc s) False (branchOps s),
                  previous_instruction_is_branch := False\<rparr>)
         else Inl BranchingError)
      else Inr s)"

definition note_conditional_branch :: "instruction \<Rightarrow> WorkerState \<Rightarrow> WorkerState" where
  "note_conditional_branch instruction s =
     (if getOpcode instruction = Br \<and> length (getOperands instruction) = 3 then
        (if isLabelTy (getOperands instruction ! 1) \<and> isLabelTy (getOperands instruction ! 2)
         then s\<lparr>previous_instruction_is_branch := True,
                target1 := printAsOperand (getOperands instruction ! 1),
                target2 := printAsOperand (getOperands instruction ! 2),
                branch_loc := getDebugLocLine instruction\<rparr>
         else s)
      else s)"

definition instructionExecuted :: "instruction \<Rightarrow> nat \<Rightarrow> WorkerState \<Rightarrow> error + WorkerState" where
  "instructionExecuted instruction num s0 =
     (let s1 = s0\<lparr>computeOps := um_add (getOpcodeName (getOpcode instruction)) 1 (computeOps s0)\<rparr>;
          s2 = count_memory_class instruction s1;
          s3 = record_load_or_store instruction s2
      in ebind (classify_branch instruction s3) (\<lambda>s4.
           let s5 = note_conditional_branch instruction s4;
               s6 = s5\<lparr>instruction_count := instruction_count s5 + 1,
                       workitem_instruction_count := workitem_instruction_count s5 + 1\<rparr>
           in Inr (s6\<lparr>instructionWidth := um_add num 1 (instructionWidth s6)\<rparr>)))"

definition workItemBarrier :: "WorkerState \<Rightarrow> WorkerState" where
  "workItemBarrier s =
     s\<lparr>barriers_hit := barriers_hit s + 1,
       instructionsBetweenBarriers := instructionsBetweenBarriers s @ [instruction_count s],
       instruction_count := 0\<rparr>"

definition workItemClearBarrier :: "WorkerState \<Rightarrow> WorkerState" where
  "workItemClearBarrier s = s\<lparr>instruction_count := 0\<rparr>"

definition workItemBegin :: "WorkerState \<Rightarrow> WorkerState" where
  "workItemBegin s =
     s\<lparr>threads_invoked := threads_invoked s + 1,
       instruction_count := 0,
       workitem_instruction_count := 0,
       ops_between_load_or_store := 0\<rparr>"

definition workItemComplete :: "WorkerState \<Rightarrow> WorkerState" where
  "workItemComplete s =
     s\<lparr>instructionsBetweenBarriers := instructionsBetweenBarriers s @ [instruction_count s],
       instructionsPerWorkitem := instructionsPerWorkitem s @ [workitem_instruction_count s]\<rparr>"

definition workGroupBegin :: "WorkerState \<Rightarrow> WorkerState" where
  "workGroupBegin s =
     s\<lparr>allocated := True,
       memoryOps := [], computeOps := [], branchOps := [],
       instructionsBetweenBarriers := [], instructionWidth := [],
       instructionsPerWorkitem := [], instructionsBetweenLoadOrStore := [],
       loadInstructionLabels := [], storeInstructionLabels := [],
       threads_invoked := 0, instruction_count := 0, barriers_hit := 0,
       constant_memory_access_count := 0, local_memory_access_count := 0,
       global_memory_access_count := 0,
       previous_instruction_is_branch := False, target1 := [], target2 := [],
       branch_loc := 0\<rparr>"

subsection \<open>The plugin state\<close>

record Plugin =
  m_memoryOps :: "nat list"
  m_computeOps :: "(string, nat) unordered_map"
  m_branchOps :: "(nat, bool list) unordered_map"
  m_instructionsToBarrier :: "nat list"
  m_instructionWidth :: "(nat, nat) unordered_map"
  m_instructionsPerWorkitem :: "nat list"
  m_instructionsBetweenLoadOrStore :: "nat list"
  m_loadInstructionLabels :: "(string, nat) unordered_map"
  m_storeInstructionLabels :: "(string, nat) unordered_map"
  m_threads_invoked :: nat
  m_barriers_hit :: nat
  m_global_memory_access :: nat
  m_local_memory_access :: nat
  m_constant_memory_access :: nat
  m_hostToDeviceCopy :: "string list"
  m_deviceToHostCopy :: "string list"
  m_numberOfHostToDeviceCopiesBeforeKernelNamed :: nat
  m_last_kernel_name :: string

text \<open>The constructor sets the pending counter and the last kernel name; the containers
  start empty. The scalar counters are first written by \<^verbatim>\<open>kernelBegin\<close>; the model starts
  them at 0.\<close>

definition constructor :: Plugin where
  "constructor =
     \<lparr>m_memoryOps = [], m_computeOps = [], m_branchOps = [], m_instructionsToBarrier = [],
      m_instructionWidth = [], m_instructionsPerWorkitem = [],
      m_instructionsBetweenLoadOrStore = [], m_loadInstructionLabels = [],
      m_storeInstructionLabels = [], m_threads_invoked = 0, m_barriers_hit = 0,
      m_global_memory_access = 0, m_local_memory_access = 0, m_constant_memory_access = 0,
      m_hostToDeviceCopy = [], m_deviceToHostCopy = [],
      m_numberOfHostToDeviceCopiesBeforeKernelNamed = 0, m_last_kernel_name = []\<rparr>"

subsection \<open>The host-transfer log\<close>

definition hostMemoryLoad :: "Plugin \<Rightarrow> Plugin" where
  "hostMemoryLoad p = p\<lparr>m_deviceToHostCopy := m_deviceToHostCopy p @ [m_last_kernel_name p]\<rparr>"

definition hostMemoryStore :: "Plugin \<Rightarrow> Plugin" where
  "hostMemoryStore p =
     p\<lparr>m_hostToDeviceCopy := m_hostToDeviceCopy p @ [m_last_kernel_name p],
       m_numberOfHostToDeviceCopiesBeforeKernelNamed :=
         m_numberOfHostToDeviceCopiesBeforeKernelNamed p + 1\<rparr>"

text \<open>The loop of \<^verbatim>\<open>kernelBegin\<close> that writes the new kernel name over the last entries of
  the host-to-device list: \<^verbatim>\<open>for (int i = 0; i < N; i++) v[end_of_list - i] = name\<close>.\<close>

function relabel_loop :: "nat \<Rightarrow> nat \<Rightarrow> int \<Rightarrow> string \<Rightarrow> string list \<Rightarrow> error + string list" where
  "relabel_loop i n end_of_list name v =
     (if i < n then
        (let idx = end_of_list - int i in
         if 0 \<le> idx \<and> idx < int (length v)
         then relabel_loop (Suc i) n end_of_list name (v[nat idx := name])
         else Inl IndexOutOfRange)
      else Inr v)"
  by pat_completeness auto
termination
  by (relation "measure (\<lambda>(i, n, end_of_list, name, v). n - i)") auto

declare relabel_loop.simps [simp del]

definition kernelBegin :: "string \<Rightarrow> Plugin \<Rightarrow> error + Plugin" where
  "kernelBegin kernelName p =
     (let end_of_list = int (length (m_hostToDeviceCopy p)) - 1 in
      ebind (relabel_loop 0 (m_numberOfHostToDeviceCopiesBeforeKernelNamed p) end_of_list
               kernelName (m_hostToDeviceCopy p))
        (\<lambda>v. Inr (p\<lparr>m_last_kernel_name := kernelName,
                     m_hostToDeviceCopy := v,
                     m_numberOfHostToDeviceCopiesBeforeKernelNamed := 0,
                     m_memoryOps := [], m_computeOps := [], m_branchOps := [],
                     m_instructionsToBarrier := [], m_instructionWidth := [],
                     m_instructionsPerWorkitem := [],
                     m_instructionsBetweenLoadOrStore := [],
                     m_loadInstructionLabels := [], m_storeInstructionLabels := [],
                     m_threads_invoked := 0, m_barriers_hit := 0,
                     m_global_memory_access := 0, m_local_memory_access := 0,
                     m_constant_memory_access := 0\<rparr>)))"

subsection \<open>The merge at the end of a work-group\<close>

definition merge_counts :: "('k, nat) unordered_map \<Rightarrow> ('k, nat) unordered_map \<Rightarrow> ('k, nat) unordered_map" where
  "merge_counts worker global = fold (\<lambda>item. um_add (fst item) (snd item)) worker global"

definition merge_branches ::
  "('k, 'a list) unordered_map \<Rightarrow> ('k, 'a list) unordered_map \<Rightarrow> ('k, 'a list) unordered_map" where
  "merge_branches worker global =
     fold (\<lambda>item g. fold (\<lambda>branch_taken. um_push_back (fst item) branch_taken) (snd item) g)
       worker global"

definition workGroupComplete :: "WorkerState \<Rightarrow> Plugin \<Rightarrow> Plugin" where
  "workGroupComplete s p =
     p\<lparr>m_computeOps := merge_counts (computeOps s) (m_computeOps p),
       m_memoryOps := m_memoryOps p @ memoryOps s,
       m_branchOps := merge_branches (branchOps s) (m_branchOps p),
       m_threads_invoked := m_threads_invoked p + threads_invoked s,
       m_instructionsToBarrier := m_instructionsToBarrier p @ instructionsBetweenBarriers s,
       m_barriers_hit := m_barriers_hit p + barriers_hit s,
       m_instructionWidth := merge_counts (instructionWidth s) (m_instructionWidth p),
       m_instructionsPerWorkitem := m_instructionsPerWorkitem p @ instructionsPerWorkitem s,
       m_instructionsBetweenLoadOrStore :=
         m_instructionsBetweenLoadOrStore p @ instructionsBetweenLoadOrStore s,
       m_loadInstructionLabels := merge_counts (loadInstructionLabels s) (m_loadInstructionLabels p),
       m_storeInstructionLabels :=
         merge_counts (storeInstructionLabels s) (m_storeInstructionLabels p),
       m_constant_memory_access := m_constant_memory_access p + constant_memory_access_count s,
       m_local_memory_access := m_local_memory_access p + local_memory_access_count s,
       m_global_memory_access := m_global_memory_access p + global_memory_access_count s\<rparr>"

text \<open>The worker's side of the merge: its list of memory operations is emptied.\<close>

definition workGroupComplete_worker :: "WorkerState \<Rightarrow> WorkerState" where
  "workGroupComplete_worker s = s\<lparr>memoryOps := []\<rparr>"

subsection \<open>The destructor: the transfer table\<close>

text \<open>\<^verbatim>\<open>std::unique\<close> followed by \<^verbatim>\<open>resize\<close>: of every run of equal neighbours the first is
  kept.\<close>

definition unique :: "'a list \<Rightarrow> 'a list" where
  "unique x = remdups_adj x"

definition transfer_rows :: "string \<Rightarrow> string list \<Rightarrow> (string \<times> string \<times> nat) list" where
  "transfer_rows metric copies =
     map (\<lambda>item. (metric, item, count_list copies item)) (unique copies)"

text \<open>The rows of \<^verbatim>\<open>aiwc_memory_transfers_<N>.csv\<close> after the header, as
  (metric, kernel, count).\<close>

definition destructor_csv :: "Plugin \<Rightarrow> (string \<times> string \<times> nat) list" where
  "destructor_csv p =
     transfer_rows ''transfer: host to device'' (m_hostToDeviceCopy p) @
     transfer_rows ''transfer: device to host'' (m_deviceToHostCopy p)"

subsection \<open>The report of kernelEnd: helpers\<close>

text \<open>\<^verbatim>\<open>std::partial_sort_copy\<close> into a vector as long as the map, with the comparator
  \<^verbatim>\<open>left.second > right.second\<close>: the entries by descending count. The order among entries
  of equal count is left open by C++ (it follows the iteration order of the map and the
  implementation of the sort); the model keeps them in the order of the map, that is, of
  first insertion.\<close>

definition sort_by_count :: "('k \<times> nat) list \<Rightarrow> ('k \<times> nat) list" where
  "sort_by_count entries = sort_key (\<lambda>item. - int (snd item)) entries"

text \<open>\<^verbatim>\<open>(unsigned)ceil(count * 0.9)\<close>.\<close>

definition ceil90 :: "nat \<Rightarrow> nat" where
  "ceil90 n = nat \<lceil>real n * (9 / 10)\<rceil>"

text \<open>\<^verbatim>\<open>while (covered < significant) { covered += sorted[n].second; n++; }\<close>, with \<open>n\<close> the
  result: the loop walks the sorted counts from the front.\<close>

fun cover :: "nat \<Rightarrow> nat \<Rightarrow> nat list \<Rightarrow> error + nat" where
  "cover significant covered [] = (if covered < significant then Inl IndexOutOfRange else Inr 0)"
| "cover significant covered (c # cs) =
     (if covered < significant
      then ebind (cover significant (covered + c) cs) (\<lambda>n. Inr (Suc n))
      else Inr 0)"

text \<open>\<^verbatim>\<open>*std::min_element(v.begin(), v.end())\<close> and \<^verbatim>\<open>*std::max_element(...)\<close>: on an empty
  range the end iterator is returned and dereferenced.\<close>

definition min_element :: "nat list \<Rightarrow> error + nat" where
  "min_element v = (case v of [] \<Rightarrow> Inl EndIteratorDeref | x # xs \<Rightarrow> Inr (fold min xs x))"

definition max_element :: "nat list \<Rightarrow> error + nat" where
  "max_element v = (case v of [] \<Rightarrow> Inl EndIteratorDeref | x # xs \<Rightarrow> Inr (fold max xs x))"

text \<open>The median in unsigned arithmetic: the sum of the two middle counts is taken in
  \<^verbatim>\<open>unsigned int\<close> and wraps at \<open>2 ^ 32\<close>; for \<open>size = 0\<close> the index \<^verbatim>\<open>size / 2 - 1\<close> wraps
  around and the read is out of range.\<close>

definition median :: "nat list \<Rightarrow> error + nat" where
  "median v =
     (let itb = sort v; sz = length itb in
      if sz mod 2 = 0 then
        (if sz = 0 then Inl IndexOutOfRange
         else Inr (((itb ! (sz div 2 - 1) + itb ! (sz div 2)) mod 2 ^ 32) div 2))
      else Inr (itb ! (sz div 2)))"

text \<open>\<^verbatim>\<open>std::accumulate(v.begin(), v.end(), 0.0) / v.size()\<close>.\<close>

definition accumulate_mean :: "nat list \<Rightarrow> fp" where
  "accumulate_mean v = fdiv (fold (\<lambda>x acc. acc + real x) v 0) (real (length v))"

text \<open>The sum of squared deviations and the standard deviation of the SIMD widths; with a
  mean that is not a number they are not numbers either.\<close>

definition stdev_of :: "(nat, nat) unordered_map \<Rightarrow> fp \<Rightarrow> nat \<Rightarrow> fp" where
  "stdev_of width mean_fp num =
     (case mean_fp of
        Fin mean \<Rightarrow>
          (case fdiv (fold (\<lambda>d acc. acc + d)
                        (map (\<lambda>x. (real (fst x) - mean) * (real (fst x) - mean) * real (snd x)) width) 0)
                     (real num) of
             Fin q \<Rightarrow> Fin (sqrt q)
           | other \<Rightarrow> other)
      | other \<Rightarrow> NaN)"

text \<open>The histogram of the addresses shifted right by \<open>nskip\<close> bits.\<close>

definition local_address_count :: "nat list \<Rightarrow> nat \<Rightarrow> (nat, nat) unordered_map" where
  "local_address_count ops nskip = fold (\<lambda>address. um_add (drop_bit nskip address) 1) ops []"

text \<open>\<^verbatim>\<open>entropy = entropy - prob * log2(prob)\<close> over the entries of a histogram, with
  \<^verbatim>\<open>prob = count / memory_access_count\<close>.\<close>

definition address_entropy :: "nat \<Rightarrow> (nat \<times> nat) list \<Rightarrow> real" where
  "address_entropy memory_access_count entries =
     fold (\<lambda>it entropy.
             (let prob = real (snd it) / real memory_access_count
              in entropy - prob * log 2 prob))
          entries 0"

subsection \<open>Branch entropy\<close>

definition history_m :: nat where
  "history_m = 16"

text \<open>The inner loop that builds \<^verbatim>\<open>current_pattern\<close> from \<^verbatim>\<open>branch.second[i + j]\<close>, \<open>j < m\<close>.\<close>

definition current_pattern :: "bool list \<Rightarrow> nat \<Rightarrow> string" where
  "current_pattern branch i =
     map (\<lambda>j. if branch ! (i + j) then CHR ''1'' else CHR ''0'') [0..<history_m]"

text \<open>The map \<open>H\<close> of one branch line: every window of \<open>m\<close> outcomes counted.\<close>

definition history_patterns :: "bool list \<Rightarrow> (string, nat) unordered_map" where
  "history_patterns branch =
     fold (\<lambda>i. um_add (current_pattern branch i) 1) [0..<length branch - (history_m - 1)] []"

type_synonym entropy_acc = "real \<times> real \<times> real \<times> nat"

definition probability_of_taken :: "string \<Rightarrow> real" where
  "probability_of_taken pattern =
     (let taken = count_list pattern CHR ''1''; not_taken = count_list pattern CHR ''0''
      in real taken / real (not_taken + taken))"

text \<open>The body of the loop over the patterns of \<open>H\<close>; the accumulator is
  (\<^verbatim>\<open>average_entropy\<close>, \<^verbatim>\<open>yokota_entropy\<close>, \<^verbatim>\<open>yokota_entropy_per_workload\<close>, \<^verbatim>\<open>N\<close>).\<close>

fun pattern_step :: "string \<times> nat \<Rightarrow> entropy_acc \<Rightarrow> entropy_acc" where
  "pattern_step (pattern, number_of_occurances) (average, yokota, per_workload, n) =
     (let prob = probability_of_taken pattern;
          yokota' = (if prob \<noteq> 0
                     then yokota - real number_of_occurances * prob * log 2 prob else yokota);
          per_workload' = (if prob \<noteq> 0 then per_workload - prob * log 2 prob else per_workload);
          linear_branch_entropy = 2 * min prob (1 - prob)
      in (average + real number_of_occurances * linear_branch_entropy,
          yokota', per_workload', n + number_of_occurances))"

text \<open>The body of the loop over the branch lines: a line with fewer than \<open>m\<close> outcomes is
  skipped.\<close>

definition branch_step :: "nat \<times> bool list \<Rightarrow> entropy_acc \<Rightarrow> entropy_acc" where
  "branch_step branch acc =
     (if length (snd branch) < history_m then acc
      else fold pattern_step (history_patterns (snd branch)) acc)"

definition branch_entropy :: "(nat, bool list) unordered_map \<Rightarrow> entropy_acc" where
  "branch_entropy branches = fold branch_step branches (0, 0, 0, 0)"

text \<open>\<^verbatim>\<open>average_entropy = average_entropy / N; if (isnan(average_entropy)) average_entropy = 0\<close>.\<close>

definition average_linear_entropy :: "entropy_acc \<Rightarrow> fp" where
  "average_linear_entropy acc =
     (case acc of (average, yokota, per_workload, n) \<Rightarrow>
        (let a = fdiv average (real n) in if isnan a then Fin 0 else a))"

subsection \<open>The report of kernelEnd, section by section\<close>

record compute_report =
  major_operations :: nat
  total_instruction_count :: nat

definition compute_section :: "Plugin \<Rightarrow> error + compute_report" where
  "compute_section p =
     (let sorted_ops = sort_by_count (m_computeOps p);
          operation_count = sum_list (map snd sorted_ops);
          significant_operation_count = ceil90 operation_count
      in ebind (cover significant_operation_count 0 (map snd sorted_ops)) (\<lambda>n.
           Inr \<lparr>major_operations = n, total_instruction_count = operation_count\<rparr>))"

record parallelism_report =
  freedom_to_reorder :: fp
  resource_pressure :: fp
  granularity :: fp
  itb_min :: nat
  itb_max :: nat
  itb_median :: nat
  barriers_per_instruction :: fp
  ipt_min :: nat
  ipt_max :: nat
  ipt_median :: nat
  simd_min :: nat
  simd_max :: nat
  simd_sum :: nat
  simd_mean :: fp
  simd_stdev :: fp
  instructions_per_operand :: fp

definition parallelism_section :: "Plugin \<Rightarrow> nat \<Rightarrow> error + parallelism_report" where
  "parallelism_section p instructions =
     ebind (min_element (m_instructionsToBarrier p)) (\<lambda>itb_lo.
     ebind (max_element (m_instructionsToBarrier p)) (\<lambda>itb_hi.
     ebind (median (m_instructionsToBarrier p)) (\<lambda>itb_mid.
     ebind (min_element (m_instructionsPerWorkitem p)) (\<lambda>ipt_lo.
     ebind (max_element (m_instructionsPerWorkitem p)) (\<lambda>ipt_hi.
     ebind (median (m_instructionsPerWorkitem p)) (\<lambda>ipt_mid.
     ebind (min_element (map fst (m_instructionWidth p))) (\<lambda>simd_lo.
     ebind (max_element (map fst (m_instructionWidth p))) (\<lambda>simd_hi.
       (let width_sum = sum_list (map (\<lambda>item. snd item * fst item) (m_instructionWidth p));
            width_num = sum_list (map snd (m_instructionWidth p));
            width_mean = fdiv (real width_sum) (real width_num)
        in Inr
          \<lparr>freedom_to_reorder = accumulate_mean (m_instructionsBetweenLoadOrStore p),
           resource_pressure =
             fdiv (real (sum_list (map snd (m_storeInstructionLabels p)) +
                         sum_list (map snd (m_loadInstructionLabels p))))
                  (real (m_threads_invoked p)),
           granularity = fdiv 1 (real (m_threads_invoked p)),
           itb_min = itb_lo, itb_max = itb_hi, itb_median = itb_mid,
           barriers_per_instruction =
             fdiv (real (m_barriers_hit p + m_threads_invoked p)) (real instructions),
           ipt_min = ipt_lo, ipt_max = ipt_hi, ipt_median = ipt_mid,
           simd_min = simd_lo, simd_max = simd_hi, simd_sum = width_sum,
           simd_mean = width_mean,
           simd_stdev = stdev_of (m_instructionWidth p) width_mean width_num,
           instructions_per_operand = fdiv (real instructions) (real width_sum)\<rparr>)))))))))"

record memory_report =
  memory_access_count :: nat
  total_memory_footprint :: nat
  significant_memory_access_count :: nat
  unique_memory_addresses :: nat
  mem_entropy :: real
  loc_entropy :: "real list"
  relative_local :: fp
  relative_constant :: fp

definition memory_section :: "Plugin \<Rightarrow> error + memory_report" where
  "memory_section p =
     (let sorted_count = sort_by_count (local_address_count (m_memoryOps p) 0);
          accesses = sum_list (map snd sorted_count);
          significant = ceil90 accesses
      in ebind (cover significant 0 (map snd sorted_count)) (\<lambda>n.
           (let m_total_memory_access =
                  m_global_memory_access p + m_local_memory_access p + m_constant_memory_access p
            in Inr
              \<lparr>memory_access_count = accesses,
               total_memory_footprint = length (local_address_count (m_memoryOps p) 0),
               significant_memory_access_count = significant,
               unique_memory_addresses = n,
               mem_entropy = address_entropy accesses sorted_count,
               loc_entropy =
                 map (\<lambda>nskip. address_entropy accesses (local_address_count (m_memoryOps p) nskip))
                   [1..<11],
               relative_local =
                 fscale (fdiv (real (m_local_memory_access p)) (real m_total_memory_access)) 100,
               relative_constant =
                 fscale (fdiv (real (m_constant_memory_access p)) (real m_total_memory_access))
                   100\<rparr>)))"

record control_report =
  total_unique_branches :: nat
  unique_branch_addresses :: nat
  yokota_entropy :: real
  yokota_entropy_per_workload :: real
  average_entropy :: fp

definition control_section :: "Plugin \<Rightarrow> error + control_report" where
  "control_section p =
     (let sorted_branch_ops = sort_key (\<lambda>x. - int (length (snd x))) (m_branchOps p);
          branch_op_count = sum_list (map (\<lambda>x. length (snd x)) sorted_branch_ops);
          significant_branch_op_count = ceil90 branch_op_count
      in ebind (cover significant_branch_op_count 0 (map (\<lambda>x. length (snd x)) sorted_branch_ops))
           (\<lambda>n.
             (case branch_entropy (m_branchOps p) of (average, yokota, per_workload, windows) \<Rightarrow>
                Inr \<lparr>total_unique_branches = length sorted_branch_ops,
                     unique_branch_addresses = n,
                     yokota_entropy = yokota,
                     yokota_entropy_per_workload = per_workload,
                     average_entropy =
                       average_linear_entropy (average, yokota, per_workload, windows)\<rparr>)))"

subsection \<open>Emission\<close>

text \<open>A printed value: an integer or a floating-point number. The formatting (field widths,
  precision, locale) is not modelled.\<close>

datatype cell = Count nat | Num fp

text \<open>\<^verbatim>\<open>std::to_string\<close> on a non-negative integer.\<close>

fun to_string :: "nat \<Rightarrow> string" where
  "to_string n =
     (if n < 10 then [''0123456789'' ! n]
      else to_string (n div 10) @ [''0123456789'' ! (n mod 10)])"

declare to_string.simps [simp del]

record metrics =
  compute :: compute_report
  parallelism :: parallelism_report
  memory :: memory_report
  control :: control_report

text \<open>The lines of the report on standard output that carry a value, each with the text
  before its colon; the rows of the table of local entropies are among them, one per number
  of skipped bits. The table of opcodes, the list of opcodes that cover 90% of the
  instructions and the table of branch lines are fields of the report of their own.\<close>

definition stdout_lines :: "Plugin \<Rightarrow> metrics \<Rightarrow> (string \<times> cell list) list" where
  "stdout_lines p ms =
     (let c = compute ms; pa = parallelism ms; me = memory ms; co = control ms in
      [(''num unique opcodes required to cover 90% of dynamic instructions'',
          [Count (major_operations c)]),
       (''Total Instruction Count'', [Count (total_instruction_count c)]),
       (''Freedom to Reorder'', [Num (freedom_to_reorder pa)]),
       (''Resource Pressure'', [Num (resource_pressure pa)]),
       (''Work-items'', [Count (m_threads_invoked p)]),
       (''Granularity'', [Num (granularity pa)]),
       (''Total Barriers Hit'', [Count (m_barriers_hit p)]),
       (''Instructions to Barrier (min/max/median)'',
          [Count (itb_min pa), Count (itb_max pa), Count (itb_median pa)]),
       (''Barriers per Instruction'', [Num (barriers_per_instruction pa)]),
       (''Instructions per Thread (min/max/median)'',
          [Count (ipt_min pa), Count (ipt_max pa), Count (ipt_median pa)]),
       (''SIMD Width (min/max/mean/stdev)'',
          [Count (simd_min pa), Count (simd_max pa), Num (simd_mean pa), Num (simd_stdev pa)]),
       (''Instructions per Operand'', [Num (instructions_per_operand pa)]),
       (''num memory accesses'', [Count (memory_access_count me)]),
       (''Total Memory Footprint -- num unique memory addresses accessed'',
          [Count (total_memory_footprint me)]),
       (''90% of memory accesses'', [Count (significant_memory_access_count me)]),
       (''90% Memory Footprint -- num unique memory addresses that cover 90% of memory accesses'',
          [Count (unique_memory_addresses me)]),
       (''Global Memory Address Entropy -- measure of the randomness of memory addresses'',
          [Num (Fin (mem_entropy me))])] @
      map (\<lambda>nskip. (''LSBs skipped '' @ to_string nskip, [Num (Fin (loc_entropy me ! (nskip - 1)))]))
        [1..<11] @
      [(''num global memory accesses'', [Count (m_global_memory_access p)]),
       (''num local memory accesses'', [Count (m_local_memory_access p)]),
       (''num constant memory accesses'', [Count (m_constant_memory_access p)]),
       (''% local memory accesses (local/total)'', [Num (relative_local me)]),
       (''% constant memory accesses (constant/total)'', [Num (relative_constant me)]),
       (''Number of unique branches that cover 90% of all branch instructions'',
          [Count (unique_branch_addresses co)]),
       (''Using a branch history of'', [Count history_m]),
       (''Yokota Branch Entropy'', [Num (Fin (yokota_entropy co))]),
       (''Yokota Branch Entropy per Workload'', [Num (Fin (yokota_entropy_per_workload co))]),
       (''Average Linear Branch Entropy'', [Num (average_entropy co)])])"

text \<open>The rows of \<^verbatim>\<open>aiwc_<kernel>_<N>.csv\<close> after the header, as (metric, count).\<close>

definition csv_rows :: "Plugin \<Rightarrow> metrics \<Rightarrow> (string \<times> cell) list" where
  "csv_rows p ms =
     (let c = compute ms; pa = parallelism ms; me = memory ms; co = control ms in
      [(''opcode'', Count (major_operations c)),
       (''total instruction count'', Count (total_instruction_count c)),
       (''freedom to reorder'', Num (freedom_to_reorder pa)),
       (''resource pressure'', Num (resource_pressure pa)),
       (''workitems'', Count (m_threads_invoked p)),
       (''operand sum'', Count (simd_sum pa)),
       (''total # of barriers hit'', Count (m_barriers_hit p)),
       (''min instructions to barrier'', Count (itb_min pa)),
       (''max instructions to barrier'', Count (itb_max pa)),
       (''median instructions to barrier'', Count (itb_median pa)),
       (''min instructions executed by a work-item'', Count (ipt_min pa)),
       (''max instructions executed by a work-item'', Count (ipt_max pa)),
       (''median instructions executed by a work-item'', Count (ipt_median pa)),
       (''max simd width'', Count (simd_max pa)),
       (''mean simd width'', Num (simd_mean pa)),
       (''stdev simd width'', Num (simd_stdev pa)),
       (''granularity'', Num (granularity pa)),
       (''barriers per instruction'', Num (barriers_per_instruction pa)),
       (''instructions per operand'', Num (instructions_per_operand pa)),
       (''total memory footprint'', Count (total_memory_footprint me)),
       (''90% memory footprint'', Count (unique_memory_addresses me)),
       (''global memory address entropy'', Num (Fin (mem_entropy me)))] @
      map (\<lambda>nskip. (''local memory address entropy -- '' @ to_string nskip @ '' LSBs skipped'',
                      Num (Fin (loc_entropy me ! (nskip - 1)))))
        [1..<11] @
      [(''total global memory accessed'', Count (m_global_memory_access p)),
       (''total local memory accessed'', Count (m_local_memory_access p)),
       (''total constant memory accessed'', Count (m_constant_memory_access p)),
       (''relative local memory usage'', Num (relative_local me)),
       (''relative constant memory usage'', Num (relative_constant me)),
       (''total unique branch instructions'', Count (total_unique_branches co)),
       (''90% branch instructions'', Count (unique_branch_addresses co)),
       (''branch entropy (yokota)'', Num (Fin (yokota_entropy_per_workload co))),
       (''branch entropy (average linear)'', Num (average_entropy co))])"

text \<open>
  The report of one kernel: the value lines of standard output, the CSV rows, and the three
  listings of standard output whose rows come from a sorted map: the table of opcodes with
  their counts, the names printed after \<open>unique opcodes required to cover 90% of dynamic
  instructions\<close> (the loop prints the name of every entry it adds), and the table of branch
  lines with their numbers of outcomes.
\<close>

record report =
  stdout :: "(string \<times> cell list) list"
  csv :: "(string \<times> cell) list"
  opcode_table :: "(string \<times> nat) list"
  covering_opcodes :: "string list"
  branch_table :: "(nat \<times> nat) list"

subsection \<open>kernelEnd\<close>

definition kernelEnd_metrics :: "Plugin \<Rightarrow> error + metrics" where
  "kernelEnd_metrics p =
     ebind (compute_section p) (\<lambda>c.
     ebind (parallelism_section p (total_instruction_count c)) (\<lambda>pa.
     ebind (memory_section p) (\<lambda>me.
     ebind (control_section p) (\<lambda>co.
       Inr \<lparr>compute = c, parallelism = pa, memory = me, control = co\<rparr>))))"

text \<open>The reset at the end of \<^verbatim>\<open>kernelEnd\<close> (``Reset kernel counts, ready to start anew'').\<close>

definition reset_kernel_counts :: "Plugin \<Rightarrow> Plugin" where
  "reset_kernel_counts p =
     p\<lparr>m_memoryOps := [], m_computeOps := [], m_branchOps := [],
       m_instructionsToBarrier := [], m_instructionsPerWorkitem := [],
       m_threads_invoked := 0,
       m_instructionsBetweenLoadOrStore := [],
       m_loadInstructionLabels := [], m_storeInstructionLabels := []\<rparr>"

definition kernelEnd :: "Plugin \<Rightarrow> error + (report \<times> Plugin)" where
  "kernelEnd p =
     ebind (kernelEnd_metrics p) (\<lambda>ms.
       Inr (\<lparr>stdout = stdout_lines p ms, csv = csv_rows p ms,
             opcode_table = sort_by_count (m_computeOps p),
             covering_opcodes =
               take (major_operations (compute ms)) (map fst (sort_by_count (m_computeOps p))),
             branch_table =
               map (\<lambda>x. (fst x, length (snd x)))
                 (sort_key (\<lambda>x. - int (length (snd x))) (m_branchOps p))\<rparr>,
            reset_kernel_counts p))"

subsection \<open>Event traces\<close>

text \<open>The callbacks of the host, for one worker thread. A memory event carries the address
  space of its region and the address; an instruction event the instruction and the number
  of elements of its result.\<close>

datatype event =
    KernelBegin string
  | KernelEnd string
  | WorkGroupBegin
  | WorkGroupComplete
  | WorkItemBegin
  | WorkItemComplete
  | WorkItemBarrier
  | WorkItemClearBarrier
  | InstructionExecuted instruction nat
  | MemoryLoad nat nat
  | MemoryStore nat nat
  | MemoryAtomicLoad nat nat
  | MemoryAtomicStore nat nat
  | HostMemoryLoad
  | HostMemoryStore

record sim =
  plugin :: Plugin
  m_state :: WorkerState
  emitted :: "report list"

definition initial_sim :: sim where
  "initial_sim = \<lparr>plugin = constructor, m_state = initial_worker, emitted = []\<rparr>"

text \<open>A hook that uses the worker's containers before \<^verbatim>\<open>workGroupBegin\<close> has created them
  dereferences a null pointer.\<close>

definition with_containers :: "sim \<Rightarrow> (WorkerState \<Rightarrow> error + WorkerState) \<Rightarrow> error + sim" where
  "with_containers s hook =
     (if allocated (m_state s)
      then ebind (hook (m_state s)) (\<lambda>w. Inr (s\<lparr>m_state := w\<rparr>))
      else Inl NullContainer)"

definition on_worker :: "sim \<Rightarrow> (WorkerState \<Rightarrow> error + WorkerState) \<Rightarrow> error + sim" where
  "on_worker s hook = ebind (hook (m_state s)) (\<lambda>w. Inr (s\<lparr>m_state := w\<rparr>))"

fun step :: "event \<Rightarrow> sim \<Rightarrow> error + sim" where
  "step (KernelBegin name) s =
     ebind (kernelBegin name (plugin s)) (\<lambda>p. Inr (s\<lparr>plugin := p\<rparr>))"
| "step (KernelEnd name) s =
     ebind (kernelEnd (plugin s)) (\<lambda>(r, p). Inr (s\<lparr>plugin := p, emitted := emitted s @ [r]\<rparr>))"
| "step WorkGroupBegin s = Inr (s\<lparr>m_state := workGroupBegin (m_state s)\<rparr>)"
| "step WorkGroupComplete s =
     (if allocated (m_state s)
      then Inr (s\<lparr>plugin := workGroupComplete (m_state s) (plugin s),
                  m_state := workGroupComplete_worker (m_state s)\<rparr>)
      else Inl NullContainer)"
| "step WorkItemBegin s = Inr (s\<lparr>m_state := workItemBegin (m_state s)\<rparr>)"
| "step WorkItemComplete s = with_containers s (\<lambda>w. Inr (workItemComplete w))"
| "step WorkItemBarrier s = with_containers s (\<lambda>w. Inr (workItemBarrier w))"
| "step WorkItemClearBarrier s = Inr (s\<lparr>m_state := workItemClearBarrier (m_state s)\<rparr>)"
| "step (InstructionExecuted instruction num) s =
     with_containers s (instructionExecuted instruction num)"
| "step (MemoryLoad space address) s = on_worker s (memoryLoad space address)"
| "step (MemoryStore space address) s = on_worker s (memoryStore space address)"
| "step (MemoryAtomicLoad space address) s = on_worker s (memoryAtomicLoad space address)"
| "step (MemoryAtomicStore space address) s = on_worker s (memoryAtomicStore space address)"
| "step HostMemoryLoad s = Inr (s\<lparr>plugin := hostMemoryLoad (plugin s)\<rparr>)"
| "step HostMemoryStore s = Inr (s\<lparr>plugin := hostMemoryStore (plugin s)\<rparr>)"

fun run :: "event list \<Rightarrow> sim \<Rightarrow> error + sim" where
  "run [] s = Inr s"
| "run (e # es) s = ebind (step e s) (run es)"

subsection \<open>Observing a run\<close>

definition final_plugin :: "event list \<Rightarrow> error + Plugin" where
  "final_plugin events = ebind (run events initial_sim) (\<lambda>s. Inr (plugin s))"

text \<open>The value of a CSV row, and of a line of standard output, in each report that a run of
  events from the initial state emits.\<close>

definition emitted_csv :: "event list \<Rightarrow> string \<Rightarrow> error + cell option list" where
  "emitted_csv events metric =
     ebind (run events initial_sim) (\<lambda>s. Inr (map (\<lambda>r. map_of (csv r) metric) (emitted s)))"

definition emitted_stdout :: "event list \<Rightarrow> string \<Rightarrow> error + cell list option list" where
  "emitted_stdout events label =
     ebind (run events initial_sim) (\<lambda>s. Inr (map (\<lambda>r. map_of (stdout r) label) (emitted s)))"

subsection \<open>Sample kernels\<close>

definition add_instruction :: instruction where
  "add_instruction =
     \<lparr>getOpcode = OtherOp ''add'', getOperands = [], getParent = ''entry'',
      getPointerOperandName = [], getPointerAddressSpace = 0, getDebugLocLine = 0\<rparr>"

definition load_instruction :: "string \<Rightarrow> nat \<Rightarrow> instruction" where
  "load_instruction name space =
     \<lparr>getOpcode = Load, getOperands = [], getParent = ''entry'',
      getPointerOperandName = name, getPointerAddressSpace = space, getDebugLocLine = 0\<rparr>"

text \<open>A kernel of one work-item that executes one \<open>add\<close> and no load or store.\<close>

definition one_add_kernel :: "string \<Rightarrow> event list" where
  "one_add_kernel name =
     [KernelBegin name, WorkGroupBegin, WorkItemBegin, InstructionExecuted add_instruction 1,
      WorkItemComplete, WorkGroupComplete, KernelEnd name]"

text \<open>A kernel of one work-item that loads from global, local and constant memory and
  passes a barrier.\<close>

definition kernel_with_loads :: "event list" where
  "kernel_with_loads =
     [KernelBegin ''K'', WorkGroupBegin, WorkItemBegin,
      MemoryLoad AddrSpaceGlobal 4096, InstructionExecuted (load_instruction ''a'' AddrSpaceGlobal) 1,
      MemoryLoad AddrSpaceLocal 64, InstructionExecuted (load_instruction ''b'' AddrSpaceLocal) 1,
      MemoryLoad AddrSpaceConstant 128,
      InstructionExecuted (load_instruction ''c'' AddrSpaceConstant) 1,
      WorkItemBarrier, WorkItemClearBarrier, WorkItemComplete, WorkGroupComplete,
      KernelEnd ''K'']"

text \<open>A host program that launches kernel A, then B, then A again, writing a buffer before
  each launch and reading one back after it.\<close>

definition three_launches :: "event list" where
  "three_launches =
     HostMemoryStore # one_add_kernel ''A'' @ HostMemoryLoad #
     HostMemoryStore # one_add_kernel ''B'' @ HostMemoryLoad #
     HostMemoryStore # one_add_kernel ''A'' @ [HostMemoryLoad]"

text \<open>The events of scenario 6 of the specification, in its order, around the work of the
  kernel; and the work of a kernel of one work-item that executes one \<open>add\<close>.\<close>

definition attribution_events :: "event list \<Rightarrow> event list" where
  "attribution_events work =
     [HostMemoryStore, HostMemoryStore, KernelBegin ''K''] @ work @
     [KernelEnd ''K'', HostMemoryLoad]"

definition one_add_work :: "event list" where
  "one_add_work =
     [WorkGroupBegin, WorkItemBegin, InstructionExecuted add_instruction 1,
      WorkItemComplete, WorkGroupComplete]"

text \<open>A work-item that executes 4 instructions, hits a barrier, is released, executes 2
  more instructions and completes.\<close>

definition barrier_item :: "event list" where
  "barrier_item =
     WorkItemBegin # replicate 4 (InstructionExecuted add_instruction 1) @
     [WorkItemBarrier, WorkItemClearBarrier] @
     replicate 2 (InstructionExecuted add_instruction 1) @ [WorkItemComplete]"

text \<open>Two such work-items, each in a work-group of its own: the second begins after the
  first has completed.\<close>

definition two_items_one_barrier :: "event list" where
  "two_items_one_barrier =
     [KernelBegin ''K'', WorkGroupBegin] @ barrier_item @
     [WorkGroupComplete, WorkGroupBegin] @ barrier_item @ [WorkGroupComplete]"

text \<open>Two such work-items in one work-group, in the order a barrier imposes: both reach
  the barrier, both are released, then each runs to its end.\<close>

definition two_items_interleaved :: "event list" where
  "two_items_interleaved =
     [KernelBegin ''K'', WorkGroupBegin] @
     WorkItemBegin # replicate 4 (InstructionExecuted add_instruction 1) @ [WorkItemBarrier] @
     WorkItemBegin # replicate 4 (InstructionExecuted add_instruction 1) @ [WorkItemBarrier] @
     [WorkItemClearBarrier, WorkItemClearBarrier] @
     replicate 2 (InstructionExecuted add_instruction 1) @ [WorkItemComplete] @
     replicate 2 (InstructionExecuted add_instruction 1) @ [WorkItemComplete] @
     [WorkGroupComplete]"

text \<open>The aggregate of a run before \<^verbatim>\<open>kernelEnd\<close>: work-items, barriers, and the instruction
  counts between barriers.\<close>

definition barrier_aggregate :: "event list \<Rightarrow> error + nat \<times> nat \<times> nat list" where
  "barrier_aggregate events =
     ebind (final_plugin events)
       (\<lambda>p. Inr (m_threads_invoked p, m_barriers_hit p, m_instructionsToBarrier p))"

subsection \<open>The transfer log in the words of the specification\<close>

text \<open>
  The log as the specification describes it: the host-to-device entries, the device-to-host
  entries, the last known kernel name and the number of pending host-to-device entries. A
  store appends an entry with the last known name and is pending; \<^verbatim>\<open>kernelBegin\<close> gives the
  pending entries, the most recent ones, the name of the new kernel and leaves none pending;
  a load appends an entry with the last known name; nothing else touches the log.
\<close>

record transfer_log =
  host_to_device :: "string list"
  device_to_host :: "string list"
  last_known :: string
  pending :: nat

fun log_event :: "event \<Rightarrow> transfer_log \<Rightarrow> transfer_log" where
  "log_event HostMemoryStore l =
     l\<lparr>host_to_device := host_to_device l @ [last_known l], pending := pending l + 1\<rparr>"
| "log_event HostMemoryLoad l = l\<lparr>device_to_host := device_to_host l @ [last_known l]\<rparr>"
| "log_event (KernelBegin name) l =
     l\<lparr>host_to_device :=
         take (length (host_to_device l) - pending l) (host_to_device l) @
         replicate (pending l) name,
       last_known := name, pending := 0\<rparr>"
| "log_event e l = l"

definition expected_log :: "event list \<Rightarrow> transfer_log" where
  "expected_log events =
     fold log_event events
       \<lparr>host_to_device = [], device_to_host = [], last_known = [], pending = 0\<rparr>"

text \<open>The log that the plugin holds.\<close>

definition log_of :: "Plugin \<Rightarrow> transfer_log" where
  "log_of p =
     \<lparr>host_to_device = m_hostToDeviceCopy p, device_to_host = m_deviceToHostCopy p,
      last_known = m_last_kernel_name p,
      pending = m_numberOfHostToDeviceCopiesBeforeKernelNamed p\<rparr>"

text \<open>The events between \<^verbatim>\<open>kernelBegin\<close> and \<^verbatim>\<open>kernelEnd\<close>: those of work-groups and work-items.\<close>

fun kernel_work :: "event \<Rightarrow> bool" where
  "kernel_work (KernelBegin name) = False"
| "kernel_work (KernelEnd name) = False"
| "kernel_work HostMemoryLoad = False"
| "kernel_work HostMemoryStore = False"
| "kernel_work e = True"

subsection \<open>The memory metrics in the words of the specification\<close>

text \<open>The address histogram sorted by descending count.\<close>

definition descending_counts :: "nat list \<Rightarrow> nat list" where
  "descending_counts ops = rev (sort (map (count_list ops) (remdups ops)))"

text \<open>The probability of an address: its count over the number of accesses.\<close>

definition access_probability :: "nat list \<Rightarrow> nat \<Rightarrow> real" where
  "access_probability ops a = real (count_list ops a) / real (length ops)"

text \<open>Scenario 3 of the specification: one work-item loads four times from address 0x1000
  and once from address 0x2000 of global memory.\<close>

definition footprint_kernel :: "event list" where
  "footprint_kernel =
     [KernelBegin ''K'', WorkGroupBegin, WorkItemBegin] @
     concat (map (\<lambda>address. [MemoryLoad AddrSpaceGlobal address,
                              InstructionExecuted (load_instruction ''p'' AddrSpaceGlobal) 1])
               [4096, 4096, 4096, 4096, 8192]) @
     [WorkItemComplete, WorkGroupComplete, KernelEnd ''K'']"

subsection \<open>Branch entropy in the words of the specification\<close>

text \<open>The windows of \<open>m\<close> consecutive outcomes of one branch line, as strings of 0 and 1:
  a line of \<open>n \<ge> m\<close> outcomes has \<open>n - m + 1\<close> of them.\<close>

definition window_patterns :: "bool list \<Rightarrow> string list" where
  "window_patterns outcomes =
     map (\<lambda>i. map (\<lambda>b. if b then CHR ''1'' else CHR ''0'') (take history_m (drop i outcomes)))
       [0..<length outcomes - (history_m - 1)]"

definition occurrences :: "bool list \<Rightarrow> string \<Rightarrow> nat" where
  "occurrences outcomes pattern = count_list (window_patterns outcomes) pattern"

definition taken_rate :: "string \<Rightarrow> real" where
  "taken_rate pattern = real (count_list pattern CHR ''1'') / 16"

definition line_yokota :: "bool list \<Rightarrow> real" where
  "line_yokota outcomes =
     (\<Sum>pattern\<in>set (window_patterns outcomes).
        if taken_rate pattern \<noteq> 0
        then - (real (occurrences outcomes pattern) * taken_rate pattern * log 2 (taken_rate pattern))
        else 0)"

definition line_per_workload :: "bool list \<Rightarrow> real" where
  "line_per_workload outcomes =
     (\<Sum>pattern\<in>set (window_patterns outcomes).
        if taken_rate pattern \<noteq> 0 then - (taken_rate pattern * log 2 (taken_rate pattern)) else 0)"

definition line_linear :: "bool list \<Rightarrow> real" where
  "line_linear outcomes =
     (\<Sum>pattern\<in>set (window_patterns outcomes).
        real (occurrences outcomes pattern) * (2 * min (taken_rate pattern) (1 - taken_rate pattern)))"

definition contributing_lines :: "(nat, bool list) unordered_map \<Rightarrow> bool list list" where
  "contributing_lines branches = filter (\<lambda>outcomes. history_m \<le> length outcomes) (map snd branches)"

text \<open>The sums over all contributing branch lines, and the number of their windows.\<close>

definition sum_linear :: "(nat, bool list) unordered_map \<Rightarrow> real" where
  "sum_linear branches = (\<Sum>outcomes\<leftarrow>contributing_lines branches. line_linear outcomes)"

definition sum_yokota :: "(nat, bool list) unordered_map \<Rightarrow> real" where
  "sum_yokota branches = (\<Sum>outcomes\<leftarrow>contributing_lines branches. line_yokota outcomes)"

definition sum_per_workload :: "(nat, bool list) unordered_map \<Rightarrow> real" where
  "sum_per_workload branches = (\<Sum>outcomes\<leftarrow>contributing_lines branches. line_per_workload outcomes)"

definition sum_windows :: "(nat, bool list) unordered_map \<Rightarrow> nat" where
  "sum_windows branches = (\<Sum>outcomes\<leftarrow>contributing_lines branches. length outcomes - 15)"

definition repeated_pattern :: "(nat, bool list) unordered_map \<Rightarrow> bool" where
  "repeated_pattern branches =
     list_ex (\<lambda>outcomes.
        list_ex (\<lambda>pattern. 2 \<le> occurrences outcomes pattern \<and>
                            0 < taken_rate pattern \<and> taken_rate pattern < 1)
          (window_patterns outcomes))
       (contributing_lines branches)"

subsection \<open>A kernel with an alternating branch\<close>

text \<open>\<open>n\<close> outcomes that alternate, the first one taken.\<close>

definition alternating :: "nat \<Rightarrow> bool list" where
  "alternating n = map even [0..<n]"

text \<open>A conditional branch at line 42 in the block \<open>parent\<close>: operands 1 and 2 are the labels
  of the two target blocks.\<close>

definition branch_instruction :: "string \<Rightarrow> instruction" where
  "branch_instruction parent =
     \<lparr>getOpcode = Br,
      getOperands = [\<lparr>isLabelTy = False, printAsOperand = ''%cond''\<rparr>,
                     \<lparr>isLabelTy = True, printAsOperand = ''%then''\<rparr>,
                     \<lparr>isLabelTy = True, printAsOperand = ''%else''\<rparr>],
      getParent = parent, getPointerOperandName = [], getPointerAddressSpace = 0,
      getDebugLocLine = 42\<rparr>"

text \<open>One work-item executes \<open>n + 1\<close> such branches; each of the last \<open>n\<close> lies in the block
  the previous one jumped to, alternately the first and the second target.\<close>

definition alternating_work :: "nat \<Rightarrow> event list" where
  "alternating_work n =
     [KernelBegin ''K'', WorkGroupBegin, WorkItemBegin,
      InstructionExecuted (branch_instruction ''%entry'') 1] @
     map (\<lambda>taken. InstructionExecuted (branch_instruction (if taken then ''%then'' else ''%else'')) 1)
       (alternating n) @
     [WorkItemComplete, WorkGroupComplete]"

definition alternating_kernel :: "nat \<Rightarrow> event list" where
  "alternating_kernel n = alternating_work n @ [KernelEnd ''K'']"

text \<open>The state of the plugin after \<open>alternating_work n\<close>.\<close>

definition alternating_aggregate :: "nat \<Rightarrow> Plugin" where
  "alternating_aggregate n =
     constructor\<lparr>m_last_kernel_name := ''K'', m_computeOps := [(''br'', n + 1)],
       m_branchOps := [(42, alternating n)], m_instructionsToBarrier := [n + 1],
       m_instructionWidth := [(1, n + 1)], m_instructionsPerWorkitem := [n + 1],
       m_threads_invoked := 1\<rparr>"

subsection \<open>Work-groups merged in different orders\<close>

text \<open>
  A work-group of one work-item that executes the entry branch and then one conditional
  branch per element of \<open>outcomes\<close>, all at the same source line; and the worker state such a
  group hands to \<^verbatim>\<open>workGroupComplete\<close>.
\<close>

definition branch_group :: "bool list \<Rightarrow> event list" where
  "branch_group outcomes =
     [WorkGroupBegin, WorkItemBegin, InstructionExecuted (branch_instruction ''%entry'') 1] @
     map (\<lambda>taken. InstructionExecuted (branch_instruction (if taken then ''%then'' else ''%else'')) 1)
       outcomes @
     [WorkItemComplete]"

definition worker_after :: "event list \<Rightarrow> WorkerState" where
  "worker_after events =
     (case run events initial_sim of Inr s \<Rightarrow> m_state s | Inl e \<Rightarrow> initial_worker)"

definition group_a_worker :: WorkerState where
  "group_a_worker = worker_after (branch_group [True, False])"

definition group_b_worker :: WorkerState where
  "group_b_worker = worker_after (branch_group (replicate 15 False))"

text \<open>One kernel invocation of the two work-groups, completing in either order.\<close>

definition merge_order_ab :: "event list" where
  "merge_order_ab =
     KernelBegin ''K'' # branch_group [True, False] @ WorkGroupComplete #
     branch_group (replicate 15 False) @ [WorkGroupComplete, KernelEnd ''K'']"

definition merge_order_ba :: "event list" where
  "merge_order_ba =
     KernelBegin ''K'' # branch_group (replicate 15 False) @ WorkGroupComplete #
     branch_group [True, False] @ [WorkGroupComplete, KernelEnd ''K'']"

text \<open>
  The three branch-entropy values of every report of a run: the line
  \<open>Yokota Branch Entropy\<close> of standard output and the CSV rows \<open>branch entropy (yokota)\<close> and
  \<open>branch entropy (average linear)\<close>.
\<close>

definition emitted_branch_entropy ::
  "event list \<Rightarrow> error + (cell list option \<times> cell option \<times> cell option) list" where
  "emitted_branch_entropy events =
     ebind (run events initial_sim)
       (\<lambda>s. Inr (map (\<lambda>r. (map_of (stdout r) ''Yokota Branch Entropy'',
                             map_of (csv r) ''branch entropy (yokota)'',
                             map_of (csv r) ''branch entropy (average linear)''))
                   (emitted s)))"

text \<open>
  A work-group of one work-item that executes \<open>fmul\<close> four times and then the operation
  \<open>name\<close> once; one kernel invocation of two such groups, one ending with \<open>add\<close> and one with
  \<open>sub\<close>, completing in either order; and the names a run prints after \<open>unique opcodes
  required to cover 90% of dynamic instructions\<close>.
\<close>

definition op_instruction :: "string \<Rightarrow> instruction" where
  "op_instruction name = add_instruction\<lparr>getOpcode := OtherOp name\<rparr>"

definition tie_group :: "string \<Rightarrow> event list" where
  "tie_group name =
     [WorkGroupBegin, WorkItemBegin] @
     replicate 4 (InstructionExecuted (op_instruction ''fmul'') 1) @
     [InstructionExecuted (op_instruction name) 1, WorkItemComplete]"

definition merge_order_xy :: "event list" where
  "merge_order_xy =
     KernelBegin ''K'' # tie_group ''add'' @ WorkGroupComplete #
     tie_group ''sub'' @ [WorkGroupComplete, KernelEnd ''K'']"

definition merge_order_yx :: "event list" where
  "merge_order_yx =
     KernelBegin ''K'' # tie_group ''sub'' @ WorkGroupComplete #
     tie_group ''add'' @ [WorkGroupComplete, KernelEnd ''K'']"

definition emitted_covering_opcodes :: "event list \<Rightarrow> error + string list list" where
  "emitted_covering_opcodes events =
     ebind (run events initial_sim) (\<lambda>s. Inr (map covering_opcodes (emitted s)))"

text \<open>
  What a report says whatever the order of the merges: its value lines and CSV rows without
  those that carry a branch entropy, and the rows of the table of opcodes and of the table of
  branch lines without their order. The names of the opcodes that cover 90% are not part of
  it; their number is, as a value line and as the CSV row \<open>opcode\<close>.
\<close>

definition branch_entropy_labels :: "string list" where
  "branch_entropy_labels =
     [''Yokota Branch Entropy'', ''Yokota Branch Entropy per Workload'',
      ''Average Linear Branch Entropy'', ''branch entropy (yokota)'',
      ''branch entropy (average linear)'']"

record order_free =
  value_lines :: "(string \<times> cell list) list"
  value_rows :: "(string \<times> cell) list"
  opcode_rows :: "(string \<times> nat) multiset"
  opcode_counts :: "nat list"
  branch_rows :: "(nat \<times> nat) multiset"
  branch_counts :: "nat list"

definition without_order :: "report \<Rightarrow> order_free" where
  "without_order r =
     \<lparr>value_lines = filter (\<lambda>line. fst line \<notin> set branch_entropy_labels) (stdout r),
      value_rows = filter (\<lambda>row. fst row \<notin> set branch_entropy_labels) (csv r),
      opcode_rows = mset (opcode_table r),
      opcode_counts = map snd (opcode_table r),
      branch_rows = mset (branch_table r),
      branch_counts = map snd (branch_table r)\<rparr>"

definition order_free_report :: "Plugin \<Rightarrow> error + order_free" where
  "order_free_report p = ebind (kernelEnd p) (\<lambda>(r, p'). Inr (without_order r))"

text \<open>
  Two views used to compare aggregates: a counting map after a list of increments, as a
  function on keys, and the number of outcomes recorded at each branch line. Two aggregates
  are the same up to order when their sequences and maps have the same entries and their
  counters agree; the outcomes of a branch line are compared by their number only.
\<close>

definition add_counts :: "('k \<times> nat) list \<Rightarrow> ('k \<rightharpoonup> nat) \<Rightarrow> ('k \<rightharpoonup> nat)" where
  "add_counts w f =
     (\<lambda>k. if k \<in> fst ` set w
          then Some (sum_list (map snd (filter (\<lambda>e. fst e = k) w)) +
                     (case f k of None \<Rightarrow> 0 | Some v \<Rightarrow> v))
          else f k)"

definition branch_lengths :: "('k \<times> 'a list) list \<Rightarrow> ('k \<times> nat) list" where
  "branch_lengths m = map (\<lambda>item. (fst item, length (snd item))) m"

definition same_aggregate :: "Plugin \<Rightarrow> Plugin \<Rightarrow> bool" where
  "same_aggregate P Q \<longleftrightarrow>
     mset (m_memoryOps P) = mset (m_memoryOps Q) \<and>
     mset (m_computeOps P) = mset (m_computeOps Q) \<and>
     mset (branch_lengths (m_branchOps P)) = mset (branch_lengths (m_branchOps Q)) \<and>
     mset (m_instructionsToBarrier P) = mset (m_instructionsToBarrier Q) \<and>
     mset (m_instructionWidth P) = mset (m_instructionWidth Q) \<and>
     mset (m_instructionsPerWorkitem P) = mset (m_instructionsPerWorkitem Q) \<and>
     mset (m_instructionsBetweenLoadOrStore P) = mset (m_instructionsBetweenLoadOrStore Q) \<and>
     mset (m_loadInstructionLabels P) = mset (m_loadInstructionLabels Q) \<and>
     mset (m_storeInstructionLabels P) = mset (m_storeInstructionLabels Q) \<and>
     m_threads_invoked P = m_threads_invoked Q \<and>
     m_barriers_hit P = m_barriers_hit Q \<and>
     m_global_memory_access P = m_global_memory_access Q \<and>
     m_local_memory_access P = m_local_memory_access Q \<and>
     m_constant_memory_access P = m_constant_memory_access Q"

section \<open>Properties\<close>

subsection \<open>Evaluation of the hooks\<close>

lemmas hook_defs =
  instructionExecuted_def count_memory_class_def record_load_or_store_def
  classify_branch_def note_conditional_branch_def workItemBarrier_def workItemClearBarrier_def
  workItemBegin_def workItemComplete_def workGroupBegin_def workGroupComplete_def
  workGroupComplete_worker_def merge_counts_def merge_branches_def with_containers_def
  on_worker_def ebind_def initial_sim_def initial_worker_def constructor_def kernelBegin_def
  hostMemoryLoad_def hostMemoryStore_def Let_def push_memory_op_def memoryLoad_def
  memoryStore_def memoryAtomicLoad_def memoryAtomicStore_def AddrSpacePrivate_def
  AddrSpaceGlobal_def AddrSpaceConstant_def AddrSpaceLocal_def

lemmas report_defs =
  kernelEnd_def reset_kernel_counts_def kernelEnd_metrics_def compute_section_def
  parallelism_section_def memory_section_def control_section_def sort_by_count_def ceil90_def
  min_element_def max_element_def median_def accumulate_mean_def fdiv_def fscale_def
  stdev_of_def local_address_count_def address_entropy_def branch_entropy_def
  average_linear_entropy_def isnan_def

subsection \<open>The relabelling loop\<close>

lemma drop_at_update: "k < length v \<Longrightarrow> drop k (v[k := x]) = x # drop (Suc k) v"
  by (simp add: upd_conv_take_nth_drop)

text \<open>With at most as many pending copies as entries, the loop stays in range and
  overwrites exactly the last \<open>n\<close> entries.\<close>

lemma relabel_loop_closed:
  "i \<le> n \<Longrightarrow> n \<le> length v \<Longrightarrow> e = int (length v) - 1 \<Longrightarrow>
   relabel_loop i n e name v =
     Inr (take (length v - n) v @ replicate (n - i) name @ drop (length v - i) v)"
proof (induction "n - i" arbitrary: i v)
  case 0
  then show ?case by (simp add: relabel_loop.simps)
next
  case (Suc d)
  define k where "k = length v - Suc i"
  have lt: "i < n" using Suc.hyps(2) by simp
  have k: "k < length v" "e - int i = int k" "Suc k = length v - i" "length v - n \<le> k"
    using lt Suc.prems by (auto simp: k_def)
  have "relabel_loop i n e name v = relabel_loop (Suc i) n e name (v[k := name])"
    using lt k by (subst relabel_loop.simps) (simp add: Let_def)
  also have "\<dots> = Inr (take (length (v[k := name]) - n) (v[k := name]) @ replicate (n - Suc i) name
                        @ drop (length (v[k := name]) - Suc i) (v[k := name]))"
    using lt Suc.prems Suc.hyps(2) by (intro Suc.hyps(1)) auto
  also have "take (length (v[k := name]) - n) (v[k := name]) = take (length v - n) v"
    using k by simp
  also have "drop (length (v[k := name]) - Suc i) (v[k := name]) = name # drop (length v - i) v"
    using drop_at_update[OF k(1), of name] k(3) by (simp add: k_def)
  also have "replicate (n - Suc i) name @ name # drop (length v - i) v
             = replicate (n - i) name @ drop (length v - i) v"
  proof -
    have "n - i = Suc (n - Suc i)" using lt by simp
    then have "replicate (n - i) name = name # replicate (n - Suc i) name" by simp
    then show ?thesis by (simp add: replicate_app_Cons_same)
  qed
  finally show ?case .
qed

lemma relabel_loop_0:
  "n \<le> length v \<Longrightarrow> e = int (length v) - 1 \<Longrightarrow>
   relabel_loop 0 n e name v = Inr (take (length v - n) v @ replicate n name)"
  by (simp add: relabel_loop_closed)

subsection \<open>The state left by kernelEnd\<close>

text \<open>
  Claim C2: after \<^verbatim>\<open>kernelEnd\<close> returns, every container of the invocation is cleared and
  every scalar counter is zero.

  The reset at the end of \<^verbatim>\<open>kernelEnd\<close> leaves out \<^verbatim>\<open>m_instructionWidth\<close>, \<^verbatim>\<open>m_barriers_hit\<close>
  and the three memory-class counters, which \<^verbatim>\<open>kernelBegin\<close> does reset. After the kernel
  \<open>kernel_with_loads\<close> (three loads of width 1, one barrier, one access to each of global,
  local and constant memory) these five members still hold the values of that
  invocation.
\<close>

theorem kernelEnd_leaves_width_and_counters:
  "ebind (final_plugin kernel_with_loads)
     (\<lambda>p. Inr (m_instructionWidth p, m_barriers_hit p, m_global_memory_access p,
                m_local_memory_access p, m_constant_memory_access p))
   = Inr ([(1, 3)], 1, 1, 1, 1)"
  by (simp add: final_plugin_def kernel_with_loads_def load_instruction_def
      hook_defs relabel_loop_0 report_defs)

subsection \<open>Freedom to reorder of a kernel without loads and stores\<close>

text \<open>
  Claim C3: when the aggregated \<^verbatim>\<open>instructionsBetweenLoadOrStore\<close> is empty at \<^verbatim>\<open>kernelEnd\<close>,
  the freedom to reorder is reported as 0 on standard output and in the CSV row
  \<open>freedom to reorder\<close>.

  The code divides the sum 0.0 by the size 0 and has no guard (as it has for the average
  branch entropy): for a kernel that executes one \<open>add\<close> and no load or store, both the
  line and the row carry the quotient 0.0 / 0, which is not a number.
\<close>

theorem freedom_to_reorder_without_memory_is_nan:
  "emitted_csv (one_add_kernel ''K'') ''freedom to reorder'' = Inr [Some (Num NaN)] \<and>
   emitted_stdout (one_add_kernel ''K'') ''Freedom to Reorder'' = Inr [Some [Num NaN]]"
  by (simp add: emitted_csv_def emitted_stdout_def one_add_kernel_def add_instruction_def
      hook_defs relabel_loop_0 report_defs csv_rows_def stdout_lines_def)

subsection \<open>The transfer table of the destructor\<close>

text \<open>
  Claim C4: for every ordering of the entries of the two transfer lists, the transfer CSV
  has exactly one row per direction and distinct kernel name, carrying that kernel's
  total.

  \<^verbatim>\<open>std::unique\<close> is applied to the unsorted lists, so it removes equal neighbours only.
  When kernel A runs, then B, then A again, with one buffer write before and one read
  after each launch, both lists are A, B, A and the table has two rows for A in each
  direction, each with A's total 2.
\<close>

theorem transfer_table_repeats_kernel:
  "ebind (final_plugin three_launches) (\<lambda>p. Inr (destructor_csv p)) =
     Inr [(''transfer: host to device'', ''A'', 2), (''transfer: host to device'', ''B'', 1),
          (''transfer: host to device'', ''A'', 2),
          (''transfer: device to host'', ''A'', 2), (''transfer: device to host'', ''B'', 1),
          (''transfer: device to host'', ''A'', 2)]"
  by (simp add: final_plugin_def three_launches_def one_add_kernel_def add_instruction_def
      hook_defs relabel_loop_0 report_defs destructor_csv_def transfer_rows_def unique_def)

subsection \<open>A kernel without work-groups\<close>

text \<open>
  Claim C5: for a \<^verbatim>\<open>kernelBegin\<close> followed at once by \<^verbatim>\<open>kernelEnd\<close>, \<^verbatim>\<open>kernelEnd\<close> completes
  without crashing and reports degenerate values.

  With no work-group merged, \<^verbatim>\<open>m_instructionsToBarrier\<close> is empty and \<^verbatim>\<open>kernelEnd\<close>
  dereferences the end iterator that \<^verbatim>\<open>std::min_element\<close> returns for it: the run ends
  there, in undefined behaviour, before any report is written.
\<close>

theorem kernelEnd_without_work_groups_fails:
  "run [KernelBegin ''K'', KernelEnd ''K''] initial_sim = Inl EndIteratorDeref"
  by (simp add: hook_defs relabel_loop_0 report_defs)

subsection \<open>Attribution of host transfers\<close>

lemma hostMemoryStore_log:
  "m_hostToDeviceCopy (hostMemoryStore p) = m_hostToDeviceCopy p @ [m_last_kernel_name p]"
  "m_numberOfHostToDeviceCopiesBeforeKernelNamed (hostMemoryStore p) =
     m_numberOfHostToDeviceCopiesBeforeKernelNamed p + 1"
  "m_deviceToHostCopy (hostMemoryStore p) = m_deviceToHostCopy p"
  by (simp_all add: hostMemoryStore_def)

lemma hostMemoryLoad_log:
  "m_deviceToHostCopy (hostMemoryLoad p) = m_deviceToHostCopy p @ [m_last_kernel_name p]"
  "m_hostToDeviceCopy (hostMemoryLoad p) = m_hostToDeviceCopy p"
  "m_numberOfHostToDeviceCopiesBeforeKernelNamed (hostMemoryLoad p) =
     m_numberOfHostToDeviceCopiesBeforeKernelNamed p"
  by (simp_all add: hostMemoryLoad_def)

text \<open>\<^verbatim>\<open>kernelBegin\<close> renames the last \<open>N\<close> host-to-device entries, \<open>N\<close> the pending counter,
  and leaves the device-to-host entries alone.\<close>

lemma kernelBegin_log:
  assumes "m_numberOfHostToDeviceCopiesBeforeKernelNamed p \<le> length (m_hostToDeviceCopy p)"
  shows "\<exists>p'. kernelBegin name p = Inr p' \<and>
           m_hostToDeviceCopy p' =
             take (length (m_hostToDeviceCopy p) - m_numberOfHostToDeviceCopiesBeforeKernelNamed p)
               (m_hostToDeviceCopy p) @
             replicate (m_numberOfHostToDeviceCopiesBeforeKernelNamed p) name \<and>
           m_numberOfHostToDeviceCopiesBeforeKernelNamed p' = 0 \<and>
           m_last_kernel_name p' = name \<and>
           m_deviceToHostCopy p' = m_deviceToHostCopy p"
  using assms by (simp add: kernelBegin_def Let_def ebind_def relabel_loop_0)

text \<open>With a kernel that does some work between \<^verbatim>\<open>kernelBegin\<close> and \<^verbatim>\<open>kernelEnd\<close>, the two
  stores before it and the load after it are attributed to it.\<close>

lemma attribution_with_work:
  "ebind (final_plugin ([HostMemoryStore, HostMemoryStore] @ one_add_kernel ''K'' @ [HostMemoryLoad]))
     (\<lambda>p. Inr (destructor_csv p)) =
   Inr [(''transfer: host to device'', ''K'', 2), (''transfer: device to host'', ''K'', 1)]"
  by (simp add: final_plugin_def one_add_kernel_def add_instruction_def
      hook_defs relabel_loop_0 report_defs destructor_csv_def transfer_rows_def unique_def)

text \<open>The hooks of the worker leave the plugin alone, \<^verbatim>\<open>kernelEnd\<close> and the merge of a
  work-group leave the log alone, and every step of a run does to the log what the
  specification says.\<close>

lemma with_containers_plugin:
  "with_containers s hook = Inr s' \<Longrightarrow> plugin s' = plugin s"
  by (auto simp: with_containers_def ebind_def split: if_splits sum.splits)

lemma on_worker_plugin: "on_worker s hook = Inr s' \<Longrightarrow> plugin s' = plugin s"
  by (auto simp: on_worker_def ebind_def split: sum.splits)

lemma kernelEnd_log: "kernelEnd p = Inr (r, p') \<Longrightarrow> log_of p' = log_of p"
  by (auto simp: kernelEnd_def ebind_def log_of_def reset_kernel_counts_def split: sum.splits)

lemma workGroupComplete_log: "log_of (workGroupComplete w p) = log_of p"
  by (simp add: workGroupComplete_def log_of_def)

lemma kernelBegin_log_of:
  assumes "pending (log_of p) \<le> length (host_to_device (log_of p))"
  shows "\<exists>p'. kernelBegin name p = Inr p' \<and> log_of p' = log_event (KernelBegin name) (log_of p)"
  using kernelBegin_log[of p name] assms by (auto simp: log_of_def)

lemma step_log:
  assumes "step e s = Inr s'"
    and "pending (log_of (plugin s)) \<le> length (host_to_device (log_of (plugin s)))"
  shows "log_of (plugin s') = log_event e (log_of (plugin s))"
proof (cases e)
  case (KernelBegin name)
  obtain p' where "kernelBegin name (plugin s) = Inr p'"
    "log_of p' = log_event (KernelBegin name) (log_of (plugin s))"
    using kernelBegin_log_of[OF assms(2)] by blast
  then show ?thesis using assms(1) KernelBegin by (auto simp: ebind_def)
next
  case (KernelEnd name)
  then show ?thesis using assms(1)
    by (auto simp: ebind_def kernelEnd_log split: sum.splits)
next
  case WorkGroupComplete
  then show ?thesis using assms(1) by (auto simp: workGroupComplete_log split: if_splits)
next
  case HostMemoryLoad
  then show ?thesis using assms(1) by (auto simp: log_of_def hostMemoryLoad_def)
next
  case HostMemoryStore
  then show ?thesis using assms(1) by (auto simp: log_of_def hostMemoryStore_def)
qed (use assms(1) in \<open>auto dest: with_containers_plugin on_worker_plugin\<close>)

lemma log_event_pending:
  "pending l \<le> length (host_to_device l)
   \<Longrightarrow> pending (log_event e l) \<le> length (host_to_device (log_event e l))"
  by (cases e) auto

lemma run_log:
  assumes "run events s = Inr s'"
    and "pending (log_of (plugin s)) \<le> length (host_to_device (log_of (plugin s)))"
  shows "log_of (plugin s') = fold log_event events (log_of (plugin s)) \<and>
         pending (log_of (plugin s')) \<le> length (host_to_device (log_of (plugin s')))"
  using assms
proof (induction events arbitrary: s)
  case Nil
  then show ?case by simp
next
  case (Cons e es)
  from Cons.prems(1) obtain s1 where s1: "step e s = Inr s1" "run es s1 = Inr s'"
    by (auto simp: ebind_def split: sum.splits)
  have l: "log_of (plugin s1) = log_event e (log_of (plugin s))"
    by (rule step_log[OF s1(1) Cons.prems(2)])
  have "pending (log_of (plugin s1)) \<le> length (host_to_device (log_of (plugin s1)))"
    unfolding l by (rule log_event_pending[OF Cons.prems(2)])
  from Cons.IH[OF s1(2) this]
  have ih: "log_of (plugin s') = fold log_event es (log_of (plugin s1))"
    and inv: "pending (log_of (plugin s')) \<le> length (host_to_device (log_of (plugin s')))"
    by blast+
  show ?case
  proof (intro conjI)
    show "log_of (plugin s') = fold log_event (e # es) (log_of (plugin s))"
      using ih by (simp add: l)
    show "pending (log_of (plugin s')) \<le> length (host_to_device (log_of (plugin s')))"
      by (rule inv)
  qed
qed

lemma kernel_work_log: "list_all kernel_work work \<Longrightarrow> fold log_event work l = l"
proof (induction work arbitrary: l)
  case Nil
  then show ?case by simp
next
  case (Cons e es)
  then have "kernel_work e" "list_all kernel_work es" by simp_all
  moreover from \<open>kernel_work e\<close> have "log_event e l = l" by (cases e) simp_all
  ultimately show ?case using Cons.IH by simp
qed

lemma attribution_events_log:
  "list_all kernel_work work \<Longrightarrow>
   expected_log (attribution_events work)
   = \<lparr>host_to_device = [''K'', ''K''], device_to_host = [''K''], last_known = ''K'',
      pending = 0\<rparr>"
  by (simp add: expected_log_def attribution_events_def kernel_work_log)

text \<open>
  Claim C6: every \<^verbatim>\<open>hostMemoryStore\<close> appends a host-to-device entry with the last known
  kernel name and counts it as pending, the next \<^verbatim>\<open>kernelBegin\<close> renames the pending entries,
  the most recent ones, to the new kernel and zeroes the counter, every \<^verbatim>\<open>hostMemoryLoad\<close>
  appends a device-to-host entry with the last kernel name, and that entry is never renamed:
  after every run of events the log of the plugin is the log the specification describes,
  and \<^verbatim>\<open>kernelBegin\<close> always finds its pending entries in the list. In particular, for
  hostMemoryStore, hostMemoryStore, kernelBegin("K"), the work of the kernel, kernelEnd("K"),
  hostMemoryLoad, the transfer table has 2 host-to-device transfers and 1 device-to-host
  transfer for K.
\<close>

theorem host_transfer_attribution:
  assumes "run events initial_sim = Inr s"
  shows "log_of (plugin s) = expected_log events \<and>
         (\<forall>name. \<exists>p'. kernelBegin name (plugin s) = Inr p') \<and>
         (\<forall>work. events = attribution_events work \<and> list_all kernel_work work \<longrightarrow>
            destructor_csv (plugin s) =
              [(''transfer: host to device'', ''K'', 2), (''transfer: device to host'', ''K'', 1)])"
proof -
  have start: "pending (log_of (plugin initial_sim))
                 \<le> length (host_to_device (log_of (plugin initial_sim)))"
    by (simp add: initial_sim_def constructor_def log_of_def)
  have "log_of (plugin initial_sim)
        = \<lparr>host_to_device = [], device_to_host = [], last_known = [], pending = 0\<rparr>"
    by (simp add: initial_sim_def constructor_def log_of_def)
  moreover from run_log[OF assms start]
  have run: "log_of (plugin s) = fold log_event events (log_of (plugin initial_sim))"
    and inv: "pending (log_of (plugin s)) \<le> length (host_to_device (log_of (plugin s)))"
    by blast+
  ultimately have l: "log_of (plugin s) = expected_log events"
    by (simp add: expected_log_def)
  have "\<exists>p'. kernelBegin name (plugin s) = Inr p'" for name
    using kernelBegin_log_of[OF inv] by blast
  moreover have "destructor_csv (plugin s) =
      [(''transfer: host to device'', ''K'', 2), (''transfer: device to host'', ''K'', 1)]"
    if "events = attribution_events work" "list_all kernel_work work" for work
  proof -
    have "log_of (plugin s)
          = \<lparr>host_to_device = [''K'', ''K''], device_to_host = [''K''], last_known = ''K'',
             pending = 0\<rparr>"
      using l that by (simp add: attribution_events_log)
    then have "m_hostToDeviceCopy (plugin s) = [''K'', ''K'']"
      "m_deviceToHostCopy (plugin s) = [''K'']"
      by (simp_all add: log_of_def)
    then show ?thesis by (simp add: destructor_csv_def transfer_rows_def unique_def)
  qed
  ultimately show ?thesis using l by blast
qed

text \<open>The scenario with a kernel of one work-item that executes one \<open>add\<close>.\<close>

theorem host_transfer_attribution_witness:
  "\<exists>s. run (attribution_events one_add_work) initial_sim = Inr s \<and>
       list_all kernel_work one_add_work \<and>
       log_of (plugin s)
         = \<lparr>host_to_device = [''K'', ''K''], device_to_host = [''K''], last_known = ''K'',
            pending = 0\<rparr> \<and>
       destructor_csv (plugin s) =
         [(''transfer: host to device'', ''K'', 2), (''transfer: device to host'', ''K'', 1)]"
proof -
  have w: "list_all kernel_work one_add_work" by (simp add: one_add_work_def)
  have "\<exists>s. run (attribution_events one_add_work) initial_sim = Inr s"
    by (simp add: attribution_events_def one_add_work_def add_instruction_def hook_defs
        relabel_loop_0 report_defs)
  then obtain s where s: "run (attribution_events one_add_work) initial_sim = Inr s" by blast
  from host_transfer_attribution[OF s] w
  have "log_of (plugin s) = expected_log (attribution_events one_add_work)"
    "destructor_csv (plugin s) =
       [(''transfer: host to device'', ''K'', 2), (''transfer: device to host'', ''K'', 1)]"
    by blast+
  then show ?thesis using s w by (auto simp: attribution_events_log)
qed

subsection \<open>Two work-items with one barrier each\<close>

lemma replicate_4: "replicate 4 x = [x, x, x, x]"
  by (simp add: numeral_eq_Suc)

lemma replicate_2: "replicate 2 x = [x, x]"
  by (simp add: numeral_eq_Suc)

lemma two_items_aggregate:
  "barrier_aggregate two_items_one_barrier = Inr (2, 2, [4, 2, 4, 2])"
  by (simp add: barrier_aggregate_def final_plugin_def two_items_one_barrier_def barrier_item_def
      add_instruction_def hook_defs relabel_loop_0 report_defs replicate_4 replicate_2)

text \<open>
  Claim C8: for an invocation of two work-items that each execute 4 instructions, hit one
  barrier, execute 2 more instructions and complete, \<open>threadsInvoked = 2\<close>,
  \<open>barriersHit = 2\<close>, \<open>instructionsBetweenBarriers\<close> is the multiset \<open>{4, 4, 2, 2}\<close>, its
  median is 3 and \<open>barriersPerInstruction = 4 / 12\<close>.

  The code does not deliver this. The counter \<^verbatim>\<open>instruction_count\<close> belongs to the worker,
  not to the work-item; \<^verbatim>\<open>workItemBarrier\<close>, \<^verbatim>\<open>workItemClearBarrier\<close> and \<^verbatim>\<open>workItemBegin\<close> reset
  it, \<^verbatim>\<open>workItemComplete\<close> records it and does not. In a work-group of the two work-items
  both reach the barrier and are released before either goes on; the second then continues
  from the count the first left behind, and the recorded counts are 4, 4, 2, 4 with median
  4, where the claim has 4, 4, 2, 2 and 3.
\<close>

theorem two_work_items_in_one_group:
  "barrier_aggregate two_items_interleaved = Inr (2, 2, [4, 4, 2, 4]) \<and>
   emitted_csv (two_items_interleaved @ [KernelEnd ''K'']) ''median instructions to barrier''
     = Inr [Some (Count 4)]"
  by (simp add: barrier_aggregate_def final_plugin_def emitted_csv_def two_items_interleaved_def
      add_instruction_def hook_defs relabel_loop_0 report_defs replicate_4 replicate_2
      csv_rows_def)

text \<open>When each of the two work-items is a work-group of its own, the worker state is reset
  between them and the values are those of the claim.\<close>

lemma two_work_items_in_two_groups:
  "map_sum id (\<lambda>(threads, barriers, counts). (threads, barriers, mset counts))
     (barrier_aggregate two_items_one_barrier) = Inr (2, 2, {#4, 4, 2, 2#}) \<and>
   emitted_csv (two_items_one_barrier @ [KernelEnd ''K'']) ''total instruction count''
     = Inr [Some (Count 12)] \<and>
   emitted_csv (two_items_one_barrier @ [KernelEnd ''K'']) ''median instructions to barrier''
     = Inr [Some (Count 3)] \<and>
   emitted_csv (two_items_one_barrier @ [KernelEnd ''K'']) ''barriers per instruction''
     = Inr [Some (Num (Fin (4 / 12)))]"
proof -
  have "mset [4, 2, 4, 2 :: nat] = {#4, 4, 2, 2#}" by simp
  then have "map_sum id (\<lambda>(threads, barriers, counts). (threads, barriers, mset counts))
     (barrier_aggregate two_items_one_barrier) = Inr (2, 2, {#4, 4, 2, 2#})"
    by (simp add: two_items_aggregate)
  moreover have "emitted_csv (two_items_one_barrier @ [KernelEnd ''K'']) ''total instruction count''
     = Inr [Some (Count 12)]"
    by (simp add: emitted_csv_def two_items_one_barrier_def barrier_item_def add_instruction_def
        hook_defs relabel_loop_0 report_defs replicate_4 replicate_2 csv_rows_def)
  moreover have "emitted_csv (two_items_one_barrier @ [KernelEnd ''K''])
       ''median instructions to barrier'' = Inr [Some (Count 3)]"
    by (simp add: emitted_csv_def two_items_one_barrier_def barrier_item_def add_instruction_def
        hook_defs relabel_loop_0 report_defs replicate_4 replicate_2 csv_rows_def)
  moreover have "emitted_csv (two_items_one_barrier @ [KernelEnd ''K''])
       ''barriers per instruction'' = Inr [Some (Num (Fin (4 / 12)))]"
    by (simp add: emitted_csv_def two_items_one_barrier_def barrier_item_def add_instruction_def
        hook_defs relabel_loop_0 report_defs replicate_4 replicate_2 csv_rows_def)
  ultimately show ?thesis by blast
qed

section \<open>Counting maps, sorting and covering\<close>

subsection \<open>Counting maps\<close>


lemma keys_um_add:
  "map fst (um_add k n m) = (if k \<in> fst ` set m then map fst m else map fst m @ [k])"
proof (induction m)
  case Nil
  show ?case by simp
next
  case (Cons e m)
  obtain k' v where e: "e = (k', v)" by (cases e)
  show ?case using Cons.IH by (auto simp: e image_iff)
qed

lemma distinct_um_add: "distinct (map fst m) \<Longrightarrow> distinct (map fst (um_add k n m))"
  by (simp add: keys_um_add)

lemma map_of_um_add:
  "map_of (um_add k n m) k' =
     (if k' = k then Some (n + (case map_of m k of None \<Rightarrow> 0 | Some v \<Rightarrow> v)) else map_of m k')"
  by (induction m) auto

lemma sum_um_add: "sum_list (map snd (um_add k n m)) = sum_list (map snd m) + n"
  by (induction m) auto

lemma keys_histogram:
  "fst ` set (fold (\<lambda>a. um_add (f a) n) ops H) = fst ` set H \<union> f ` set ops"
proof (induction ops arbitrary: H)
  case Nil
  show ?case by simp
next
  case (Cons a ops)
  have "set (map fst (um_add (f a) n H)) = insert (f a) (fst ` set H)"
    by (auto simp: keys_um_add)
  then have "fst ` set (um_add (f a) n H) = insert (f a) (fst ` set H)" by simp
  then show ?case using Cons.IH[of "um_add (f a) n H"] by auto
qed

lemma distinct_histogram:
  "distinct (map fst H) \<Longrightarrow> distinct (map fst (fold (\<lambda>a. um_add (f a) n) ops H))"
  by (induction ops arbitrary: H) (simp_all add: distinct_um_add)

lemma map_of_histogram:
  "map_of (fold (\<lambda>a. um_add (f a) n) ops H) k =
     (if k \<in> f ` set ops
      then Some (count_list (map f ops) k * n + (case map_of H k of None \<Rightarrow> 0 | Some v \<Rightarrow> v))
      else map_of H k)"
proof (induction ops arbitrary: H)
  case Nil
  show ?case by simp
next
  case (Cons a ops)
  have "map_of (fold (\<lambda>a. um_add (f a) n) (a # ops) H) k
        = map_of (fold (\<lambda>a. um_add (f a) n) ops (um_add (f a) n H)) k" by simp
  also have "\<dots> = (if k \<in> f ` set ops
      then Some (count_list (map f ops) k * n +
                 (case map_of (um_add (f a) n H) k of None \<Rightarrow> 0 | Some v \<Rightarrow> v))
      else map_of (um_add (f a) n H) k)" by (rule Cons.IH)
  also have "\<dots> = (if k \<in> f ` set (a # ops)
      then Some (count_list (map f (a # ops)) k * n + (case map_of H k of None \<Rightarrow> 0 | Some v \<Rightarrow> v))
      else map_of H k)"
  proof (cases "k = f a")
    case True
    have "k \<notin> f ` set ops \<Longrightarrow> count_list (map f ops) k = 0"
      by (simp add: count_list_0_iff)
    then show ?thesis using True by (auto simp: map_of_um_add split: option.splits)
  next
    case False
    then show ?thesis by (auto simp: map_of_um_add)
  qed
  finally show ?case .
qed

lemma sum_histogram:
  "sum_list (map snd (fold (\<lambda>a. um_add (f a) n) ops H)) = sum_list (map snd H) + length ops * n"
  by (induction ops arbitrary: H) (simp_all add: sum_um_add)

lemma histogram_entries:
  assumes "e \<in> set (fold (\<lambda>a. um_add (f a) n) ops [])"
  shows "snd e = count_list (map f ops) (fst e) * n" and "fst e \<in> f ` set ops"
proof -
  let ?H = "fold (\<lambda>a. um_add (f a) n) ops []"
  have d: "distinct (map fst ?H)" by (rule distinct_histogram) simp
  have "(fst e, snd e) \<in> set ?H" using assms by simp
  then have m: "map_of ?H (fst e) = Some (snd e)" using d by (simp only: map_of_is_SomeI)
  show k: "fst e \<in> f ` set ops" using assms keys_histogram[of f n ops "[]"] by force
  show "snd e = count_list (map f ops) (fst e) * n"
    using m k by (simp add: map_of_histogram)
qed


subsection \<open>Sorting by descending count\<close>

lemma sorted_descending_unique:
  fixes xs ys :: "nat list"
  assumes "mset xs = mset ys" "sorted (rev xs)" "sorted (rev ys)"
  shows "xs = ys"
proof -
  have "sort (rev ys) = rev xs"
    by (rule properties_for_sort) (simp_all add: assms)
  moreover have "sort (rev ys) = rev ys"
    by (rule properties_for_sort) (simp_all add: assms)
  ultimately show ?thesis by simp
qed

lemma sorted_rev_sort_key_desc:
  "sorted (rev (map g (sort_key (\<lambda>x. - int (g x)) xs)))"
proof -
  have "sorted (map (\<lambda>x. - int (g x)) (sort_key (\<lambda>x. - int (g x)) xs))"
    by (rule sorted_sort_key)
  then have "sorted_wrt (\<lambda>x y. g y \<le> g x) (sort_key (\<lambda>x. - int (g x)) xs)"
    by (simp add: sorted_map)
  then show ?thesis by (simp add: sorted_wrt_rev sorted_wrt_map)
qed

lemma map_sort_key_desc:
  "map g (sort_key (\<lambda>x. - int (g x)) xs) = rev (sort (map g xs))"
proof (rule sorted_descending_unique)
  show "mset (map g (sort_key (\<lambda>x. - int (g x)) xs)) = mset (rev (sort (map g xs)))"
    by simp
  show "sorted (rev (map g (sort_key (\<lambda>x. - int (g x)) xs)))"
    by (rule sorted_rev_sort_key_desc)
  show "sorted (rev (rev (sort (map g xs))))" by simp
qed

lemma counts_sort_by_count: "map snd (sort_by_count m) = rev (sort (map snd m))"
  unfolding sort_by_count_def by (rule map_sort_key_desc)

subsection \<open>The covering loop\<close>

lemma cover_least:
  "significant \<le> covered + sum_list cs \<Longrightarrow>
   cover significant covered cs = Inr (LEAST k. significant \<le> covered + sum_list (take k cs))"
proof (induction cs arbitrary: covered)
  case Nil
  then show ?case by simp
next
  case (Cons c cs)
  show ?case
  proof (cases "covered < significant")
    case False
    then have "(LEAST k. significant \<le> covered + sum_list (take k (c # cs))) = 0"
      by (intro Least_eq_0) simp
    with False show ?thesis by simp
  next
    case True
    let ?P = "\<lambda>k. significant \<le> covered + sum_list (take k (c # cs))"
    have "?P (length (c # cs))" using Cons.prems by simp
    moreover have "\<not> ?P 0" using True by simp
    ultimately have "(LEAST k. ?P k) = Suc (LEAST k. ?P (Suc k))" by (rule Least_Suc)
    moreover have "cover significant (covered + c) cs
        = Inr (LEAST k. significant \<le> covered + c + sum_list (take k cs))"
      using Cons.prems by (intro Cons.IH) simp
    ultimately show ?thesis using True by (simp add: ebind_def add.assoc)
  qed
qed

lemma ceil90_le: "ceil90 n \<le> n"
proof -
  have "real n * (9 / 10) \<le> real_of_int (int n)" by simp
  then have "\<lceil>real n * (9 / 10)\<rceil> \<le> int n" by (simp only: ceiling_le_iff)
  then show ?thesis by (simp add: ceil90_def)
qed

lemma cover_ceil90:
  "cover (ceil90 (sum_list cs)) 0 cs = Inr (LEAST k. ceil90 (sum_list cs) \<le> sum_list (take k cs))"
  using cover_least[of "ceil90 (sum_list cs)" 0 cs] ceil90_le[of "sum_list cs"] by simp

subsection \<open>Entropy as a sum\<close>

lemma fold_minus_sum:
  fixes a :: real
  shows "fold (\<lambda>x acc. acc - g x) xs a = a - sum_list (map g xs)"
  by (induction xs arbitrary: a) simp_all

lemma sum_list_mset_cong:
  fixes g :: "'a \<Rightarrow> 'b::comm_monoid_add"
  assumes "mset xs = mset ys"
  shows "sum_list (map g xs) = sum_list (map g ys)"
proof -
  have "sum_mset (image_mset g (mset xs)) = sum_mset (image_mset g (mset ys))"
    by (simp add: assms)
  then show ?thesis by (simp only: flip: mset_map sum_mset_sum_list)
qed

lemma address_entropy_sum:
  "address_entropy n entries =
     - sum_list (map (\<lambda>it. real (snd it) / real n * log 2 (real (snd it) / real n)) entries)"
  by (simp add: address_entropy_def Let_def fold_minus_sum)

section \<open>Memory footprint and entropy\<close>

lemma local_address_count_0: "local_address_count ops 0 = fold (\<lambda>a. um_add a 1) ops []"
  by (simp add: local_address_count_def)

lemma histogram_keys_mset:
  "mset (map fst (local_address_count ops 0)) = mset (remdups ops)"
proof -
  have "distinct (map fst (local_address_count ops 0))"
    unfolding local_address_count_0 by (rule distinct_histogram) simp
  moreover have "set (map fst (local_address_count ops 0)) = set (remdups ops)"
    unfolding local_address_count_0 using keys_histogram[of "\<lambda>a. a" 1 ops "[]"] by simp
  ultimately show ?thesis by (metis distinct_remdups set_eq_iff_mset_eq_distinct)
qed

lemma histogram_as_map:
  "local_address_count ops 0 =
     map (\<lambda>a. (a, count_list ops a)) (map fst (local_address_count ops 0))"
proof -
  have "map (\<lambda>e. (fst e, count_list ops (fst e))) (local_address_count ops 0)
        = local_address_count ops 0"
  proof (rule map_idI)
    fix e assume "e \<in> set (local_address_count ops 0)"
    then have "snd e = count_list (map (\<lambda>a. a) ops) (fst e) * 1"
      unfolding local_address_count_0 by (rule histogram_entries)
    then show "(fst e, count_list ops (fst e)) = e" by (simp add: prod_eq_iff)
  qed
  then show ?thesis by (simp add: comp_def)
qed

lemma histogram_mset:
  "mset (local_address_count ops 0) = image_mset (\<lambda>a. (a, count_list ops a)) (mset (remdups ops))"
proof -
  have "mset (local_address_count ops 0)
        = image_mset (\<lambda>a. (a, count_list ops a)) (mset (map fst (local_address_count ops 0)))"
    using histogram_as_map[of ops] by (metis mset_map)
  then show ?thesis by (simp only: histogram_keys_mset)
qed

lemma footprint_card: "length (local_address_count ops 0) = card (set ops)"
proof -
  have "length (local_address_count ops 0) = size (mset (local_address_count ops 0))" by simp
  also have "\<dots> = length (remdups ops)" by (simp add: histogram_mset)
  also have "\<dots> = card (set ops)" by (simp add: length_remdups_card_conv)
  finally show ?thesis .
qed

lemma access_count_length: "sum_list (map snd (local_address_count ops 0)) = length ops"
  unfolding local_address_count_0 using sum_histogram[of "\<lambda>a. a" 1 ops "[]"] by simp

lemma sorted_counts_descending:
  "map snd (sort_by_count (local_address_count ops 0)) = descending_counts ops"
proof -
  have "mset (map snd (local_address_count ops 0)) = mset (map (count_list ops) (remdups ops))"
    by (simp add: histogram_mset image_mset.compositionality comp_def)
  then have "sort (map snd (local_address_count ops 0)) = sort (map (count_list ops) (remdups ops))"
    by (metis properties_for_sort sorted_sort mset_sort)
  then show ?thesis by (simp add: counts_sort_by_count descending_counts_def)
qed

lemma entropy_over_addresses:
  "address_entropy (length ops) (sort_by_count (local_address_count ops 0)) =
     - (\<Sum>a\<in>set ops. access_probability ops a * log 2 (access_probability ops a))"
proof -
  let ?g = "\<lambda>it :: nat \<times> nat. real (snd it) / real (length ops) * log 2 (real (snd it) / real (length ops))"
  have "sum_list (map ?g (sort_by_count (local_address_count ops 0)))
        = sum_list (map ?g (local_address_count ops 0))"
    by (rule sum_list_mset_cong) (simp add: sort_by_count_def)
  also have "\<dots> = sum_list (map ?g (map (\<lambda>a. (a, count_list ops a)) (remdups ops)))"
    by (rule sum_list_mset_cong) (simp add: histogram_mset)
  also have "\<dots> = sum_list (map (\<lambda>a. access_probability ops a * log 2 (access_probability ops a))
                        (remdups ops))"
    by (simp add: comp_def access_probability_def)
  also have "\<dots> = (\<Sum>a\<in>set ops. access_probability ops a * log 2 (access_probability ops a))"
    using sum_list_distinct_conv_sum_set[of "remdups ops"] by simp
  finally show ?thesis by (simp add: address_entropy_sum)
qed

lemma sum_descending_counts: "sum_list (descending_counts ops) = length ops"
proof -
  have "sum_list (map snd (sort_by_count (local_address_count ops 0)))
        = sum_list (map snd (local_address_count ops 0))"
    by (rule sum_list_mset_cong) (simp add: sort_by_count_def)
  then show ?thesis by (simp add: sorted_counts_descending access_count_length)
qed

lemma memory_section_value:
  "memory_section p =
     Inr \<lparr>memory_access_count = length (m_memoryOps p),
          total_memory_footprint = card (set (m_memoryOps p)),
          significant_memory_access_count = ceil90 (length (m_memoryOps p)),
          unique_memory_addresses =
            (LEAST k. ceil90 (length (m_memoryOps p))
                        \<le> sum_list (take k (descending_counts (m_memoryOps p)))),
          mem_entropy =
            - (\<Sum>a\<in>set (m_memoryOps p).
                 access_probability (m_memoryOps p) a * log 2 (access_probability (m_memoryOps p) a)),
          loc_entropy =
            map (\<lambda>nskip. address_entropy (length (m_memoryOps p))
                            (local_address_count (m_memoryOps p) nskip)) [1..<11],
          relative_local =
            fscale (fdiv (real (m_local_memory_access p))
                      (real (m_global_memory_access p + m_local_memory_access p +
                             m_constant_memory_access p))) 100,
          relative_constant =
            fscale (fdiv (real (m_constant_memory_access p))
                      (real (m_global_memory_access p + m_local_memory_access p +
                             m_constant_memory_access p))) 100\<rparr>"
proof -
  let ?ops = "m_memoryOps p"
  have "cover (ceil90 (length ?ops)) 0 (descending_counts ?ops)
        = Inr (LEAST k. ceil90 (length ?ops) \<le> sum_list (take k (descending_counts ?ops)))"
    using cover_ceil90[of "descending_counts ?ops"] by (simp only: sum_descending_counts)
  then show ?thesis
    by (simp add: memory_section_def Let_def ebind_def sorted_counts_descending
        sum_descending_counts footprint_card entropy_over_addresses)
qed

lemma log_2_5_lower: "339 / 146 < log 2 (5::real)"
proof -
  have lt: "(2::real) ^ 339 < 5 ^ 146" by simp
  have one: "(1::real) < 2" by simp
  have p2: "(0::real) < 2 ^ 339" by (rule zero_less_power) simp
  have p5: "(0::real) < 5 ^ 146" by (rule zero_less_power) simp
  have "log 2 ((2::real) ^ 339) < log 2 (5 ^ 146)"
    by (rule iffD2[OF log_less_cancel_iff[OF one p2 p5] lt])
  moreover have "log 2 ((2::real) ^ 339) = real 339 * log 2 2" by (rule log_nat_power) simp
  moreover have "log 2 ((5::real) ^ 146) = real 146 * log 2 5" by (rule log_nat_power) simp
  ultimately have "real 339 * log 2 2 < real 146 * log 2 (5::real)" by (simp only:)
  then show ?thesis by simp
qed

lemma log_2_5_upper: "log 2 (5::real) < 137 / 59"
proof -
  have lt: "(5::real) ^ 59 < 2 ^ 137" by simp
  have one: "(1::real) < 2" by simp
  have p2: "(0::real) < 2 ^ 137" by (rule zero_less_power) simp
  have p5: "(0::real) < 5 ^ 59" by (rule zero_less_power) simp
  have "log 2 ((5::real) ^ 59) < log 2 (2 ^ 137)"
    by (rule iffD2[OF log_less_cancel_iff[OF one p5 p2] lt])
  moreover have "log 2 ((2::real) ^ 137) = real 137 * log 2 2" by (rule log_nat_power) simp
  moreover have "log 2 ((5::real) ^ 59) = real 59 * log 2 5" by (rule log_nat_power) simp
  ultimately have "real 59 * log 2 (5::real) < real 137 * log 2 2" by (simp only:)
  then show ?thesis by simp
qed

lemma example_entropy: "- (4 / 5 * log 2 (4 / 5) + 1 / 5 * log 2 (1 / 5)) = log 2 (5::real) - 8 / 5"
proof -
  have "log 2 (4::real) = 2" using log_nat_power[of "2::real" 2 2] by simp
  then have "log 2 (4 / 5 :: real) = 2 - log 2 5" by (simp add: log_divide)
  moreover have "log 2 (1 / 5 :: real) = - log 2 5" by (simp add: log_divide)
  ultimately show ?thesis by argo
qed

lemma example_entropy_bounds:
  "0.7219 < - (4 / 5 * log 2 (4 / 5) + 1 / 5 * log 2 (1 / 5 :: real))"
  "- (4 / 5 * log 2 (4 / 5) + 1 / 5 * log 2 (1 / 5 :: real)) < 0.7221"
proof -
  have "(0.7219 :: real) < 339 / 146 - 8 / 5" by simp
  then show "0.7219 < - (4 / 5 * log 2 (4 / 5) + 1 / 5 * log 2 (1 / 5 :: real))"
    using log_2_5_lower unfolding example_entropy by linarith
  have "(137 / 59 - 8 / 5 :: real) < 0.7221" by simp
  then show "- (4 / 5 * log 2 (4 / 5) + 1 / 5 * log 2 (1 / 5 :: real)) < 0.7221"
    using log_2_5_upper unfolding example_entropy by linarith
qed

lemma footprint_rows:
  "emitted_csv footprint_kernel ''total memory footprint'' = Inr [Some (Count 2)]"
  "emitted_csv footprint_kernel ''90% memory footprint'' = Inr [Some (Count 2)]"
  "emitted_stdout footprint_kernel ''num memory accesses'' = Inr [Some [Count 5]]"
  "emitted_stdout footprint_kernel ''90% of memory accesses'' = Inr [Some [Count 5]]"
  "emitted_csv footprint_kernel ''global memory address entropy''
     = Inr [Some (Num (Fin (- (4 / 5 * log 2 (4 / 5) + 1 / 5 * log 2 (1 / 5)))))]"
  by (simp_all add: emitted_csv_def emitted_stdout_def footprint_kernel_def load_instruction_def
      hook_defs relabel_loop_0 report_defs csv_rows_def stdout_lines_def)

text \<open>
  Claim C7: the total memory footprint is the number of distinct addresses in
  \<^verbatim>\<open>memoryOps\<close>, \<^verbatim>\<open>memoryAccessCount\<close> is its length, the 90% footprint is the length of the
  smallest prefix of the histogram sorted by descending count whose cumulative count
  reaches the ceiling of 0.9 times the access count, and the global entropy is minus the
  sum of \<open>p * log2 p\<close> over the probabilities of the addresses; in particular 4 accesses to
  0x1000 and 1 access to 0x2000 give footprint 2, 90% footprint 1, access count 5 and
  entropy about 0.7219.

  By the rule of the claim itself the example has 90% footprint 2: the ceiling of
  \<open>0.9 * 5\<close> is 5, and the first entry of the sorted histogram covers 4 accesses only.
\<close>

theorem footprint_example_counterexample:
  "emitted_stdout footprint_kernel ''90% of memory accesses'' = Inr [Some [Count 5]] \<and>
   emitted_csv footprint_kernel ''90% memory footprint'' = Inr [Some (Count 2)] \<and>
   emitted_csv footprint_kernel ''90% memory footprint'' \<noteq> Inr [Some (Count 1)]"
  by (simp add: footprint_rows)

text \<open>
  Claim C7, amended: the four rules as claimed, for every state of the plugin (real
  arithmetic in place of floating point); the example gives footprint 2, 90% footprint 2,
  access count 5 and entropy \<open>-(0.8 * log2 0.8 + 0.2 * log2 0.2)\<close>, which lies between
  0.7219 and 0.7221.
\<close>

theorem memory_footprint_metrics:
  "(\<exists>me. memory_section p = Inr me \<and>
      total_memory_footprint me = card (set (m_memoryOps p)) \<and>
      memory_access_count me = length (m_memoryOps p) \<and>
      significant_memory_access_count me = nat \<lceil>real (length (m_memoryOps p)) * (9 / 10)\<rceil> \<and>
      unique_memory_addresses me =
        (LEAST k. significant_memory_access_count me
                    \<le> sum_list (take k (descending_counts (m_memoryOps p)))) \<and>
      mem_entropy me =
        - (\<Sum>a\<in>set (m_memoryOps p).
             access_probability (m_memoryOps p) a * log 2 (access_probability (m_memoryOps p) a))) \<and>
   emitted_csv footprint_kernel ''total memory footprint'' = Inr [Some (Count 2)] \<and>
   emitted_csv footprint_kernel ''90% memory footprint'' = Inr [Some (Count 2)] \<and>
   emitted_stdout footprint_kernel ''num memory accesses'' = Inr [Some [Count 5]] \<and>
   emitted_csv footprint_kernel ''global memory address entropy''
     = Inr [Some (Num (Fin (- (4 / 5 * log 2 (4 / 5) + 1 / 5 * log 2 (1 / 5)))))] \<and>
   0.7219 < - (4 / 5 * log 2 (4 / 5) + 1 / 5 * log 2 (1 / 5 :: real)) \<and>
   - (4 / 5 * log 2 (4 / 5) + 1 / 5 * log 2 (1 / 5 :: real)) < 0.7221"
proof -
  have "\<exists>me. memory_section p = Inr me \<and>
      total_memory_footprint me = card (set (m_memoryOps p)) \<and>
      memory_access_count me = length (m_memoryOps p) \<and>
      significant_memory_access_count me = nat \<lceil>real (length (m_memoryOps p)) * (9 / 10)\<rceil> \<and>
      unique_memory_addresses me =
        (LEAST k. significant_memory_access_count me
                    \<le> sum_list (take k (descending_counts (m_memoryOps p)))) \<and>
      mem_entropy me =
        - (\<Sum>a\<in>set (m_memoryOps p).
             access_probability (m_memoryOps p) a * log 2 (access_probability (m_memoryOps p) a))"
    by (simp add: memory_section_value) (simp add: ceil90_def)
  then show ?thesis
    using footprint_rows example_entropy_bounds by blast
qed

section \<open>Branch entropy\<close>

subsection \<open>The loops as sums over windows\<close>

lemma current_pattern_window:
  assumes "i + history_m \<le> length outcomes"
  shows "current_pattern outcomes i =
           map (\<lambda>b. if b then CHR ''1'' else CHR ''0'') (take history_m (drop i outcomes))"
  unfolding current_pattern_def
proof (rule nth_equalityI)
  show "length (map (\<lambda>j. if outcomes ! (i + j) then CHR ''1'' else CHR ''0'') [0..<history_m])
        = length (map (\<lambda>b. if b then CHR ''1'' else CHR ''0'') (take history_m (drop i outcomes)))"
    using assms by simp
next
  fix j
  assume "j < length (map (\<lambda>j. if outcomes ! (i + j) then CHR ''1'' else CHR ''0'') [0..<history_m])"
  then have j: "j < history_m" by simp
  then have "j < length (take history_m (drop i outcomes))" using assms by simp
  then have "map (\<lambda>b. if b then CHR ''1'' else CHR ''0'') (take history_m (drop i outcomes)) ! j
             = (if outcomes ! (i + j) then CHR ''1'' else CHR ''0'')"
    using j assms by (simp only: nth_map) simp
  then show "map (\<lambda>j. if outcomes ! (i + j) then CHR ''1'' else CHR ''0'') [0..<history_m] ! j
             = map (\<lambda>b. if b then CHR ''1'' else CHR ''0'') (take history_m (drop i outcomes)) ! j"
    using j by simp
qed

lemma patterns_are_windows:
  assumes "history_m \<le> length outcomes"
  shows "map (current_pattern outcomes) [0..<length outcomes - (history_m - 1)] = window_patterns outcomes"
  unfolding window_patterns_def
proof (rule map_cong[OF refl])
  fix i assume "i \<in> set [0..<length outcomes - (history_m - 1)]"
  then have "i + history_m \<le> length outcomes" using assms by (auto simp: history_m_def)
  then show "current_pattern outcomes i =
      map (\<lambda>b. if b then CHR ''1'' else CHR ''0'') (take history_m (drop i outcomes))"
    by (rule current_pattern_window)
qed

lemma window_count: "length (window_patterns outcomes) = length outcomes - (history_m - 1)"
  by (simp add: window_patterns_def)

lemma window_pattern_rate:
  assumes "history_m \<le> length outcomes" "pattern \<in> set (window_patterns outcomes)"
  shows "probability_of_taken pattern = taken_rate pattern"
proof -
  obtain i where i: "i < length outcomes - (history_m - 1)"
    and p: "pattern = map (\<lambda>b. if b then CHR ''1'' else CHR ''0'') (take history_m (drop i outcomes))"
    using assms(2) by (auto simp: window_patterns_def)
  have len: "length pattern = 16" using i assms(1) by (simp add: p history_m_def)
  have "count_list (map (\<lambda>b. if b then CHR ''1'' else CHR ''0'') bs) CHR ''0''
        + count_list (map (\<lambda>b. if b then CHR ''1'' else CHR ''0'') bs) CHR ''1'' = length bs" for bs
    by (induction bs) auto
  then have "count_list pattern CHR ''0'' + count_list pattern CHR ''1'' = 16"
    using len unfolding p by (metis length_map)
  then have "real (count_list pattern CHR ''0'') + real (count_list pattern CHR ''1'') = 16"
    by (metis of_nat_add of_nat_numeral)
  then show ?thesis by (simp add: probability_of_taken_def taken_rate_def Let_def)
qed


lemma fold_pattern_step:
  "fold pattern_step H (a, y, w, n) =
     (a + (\<Sum>h\<leftarrow>H. real (snd h) *
             (2 * min (probability_of_taken (fst h)) (1 - probability_of_taken (fst h)))),
      y + (\<Sum>h\<leftarrow>H. if probability_of_taken (fst h) \<noteq> 0
             then - (real (snd h) * probability_of_taken (fst h) * log 2 (probability_of_taken (fst h)))
             else 0),
      w + (\<Sum>h\<leftarrow>H. if probability_of_taken (fst h) \<noteq> 0
             then - (probability_of_taken (fst h) * log 2 (probability_of_taken (fst h)))
             else 0),
      n + (\<Sum>h\<leftarrow>H. snd h))"
proof (induction H arbitrary: a y w n)
  case Nil
  show ?case by simp
next
  case (Cons h H)
  obtain pattern c where h: "h = (pattern, c)" by (cases h)
  show ?case by (simp add: h Cons.IH Let_def algebra_simps)
qed

lemma history_patterns_keys:
  assumes "history_m \<le> length outcomes"
  shows "distinct (map fst (history_patterns outcomes))"
    and "set (map fst (history_patterns outcomes)) = set (window_patterns outcomes)"
proof -
  show "distinct (map fst (history_patterns outcomes))"
    unfolding history_patterns_def by (rule distinct_histogram) simp
  have "fst ` set (history_patterns outcomes)
        = current_pattern outcomes ` set [0..<length outcomes - (history_m - 1)]"
    unfolding history_patterns_def
    using keys_histogram[of "current_pattern outcomes" 1 "[0..<length outcomes - (history_m - 1)]" "[]"]
    by simp
  moreover have "set (window_patterns outcomes)
        = current_pattern outcomes ` set [0..<length outcomes - (history_m - 1)]"
    using arg_cong[OF patterns_are_windows[OF assms], of set] by simp
  ultimately show "set (map fst (history_patterns outcomes)) = set (window_patterns outcomes)"
    by simp
qed

lemma history_patterns_counts:
  assumes "history_m \<le> length outcomes" "h \<in> set (history_patterns outcomes)"
  shows "snd h = occurrences outcomes (fst h)"
proof -
  have "snd h = count_list (map (current_pattern outcomes) [0..<length outcomes - (history_m - 1)])
                  (fst h) * 1"
    using assms(2) unfolding history_patterns_def by (rule histogram_entries)
  then show ?thesis using patterns_are_windows[OF assms(1)] by (simp add: occurrences_def)
qed

lemma sum_over_history:
  fixes F :: "string \<times> nat \<Rightarrow> 'a::comm_monoid_add"
  assumes "history_m \<le> length outcomes"
  shows "(\<Sum>h\<leftarrow>history_patterns outcomes. F h)
         = (\<Sum>pattern\<in>set (window_patterns outcomes). F (pattern, occurrences outcomes pattern))"
proof -
  let ?H = "history_patterns outcomes"
  have "F h = F (fst h, occurrences outcomes (fst h))" if "h \<in> set ?H" for h
    using history_patterns_counts[OF assms that] by (metis prod.collapse)
  then have m: "map F ?H = map (\<lambda>h. F (fst h, occurrences outcomes (fst h))) ?H"
    by (intro map_cong) simp_all
  have "(\<Sum>h\<leftarrow>?H. F h) = (\<Sum>h\<leftarrow>?H. F (fst h, occurrences outcomes (fst h)))"
    by (simp only: m)
  also have "\<dots> = (\<Sum>pattern\<leftarrow>map fst ?H. F (pattern, occurrences outcomes pattern))"
    by (simp add: comp_def)
  also have "\<dots> = (\<Sum>pattern\<in>set (map fst ?H). F (pattern, occurrences outcomes pattern))"
    using history_patterns_keys(1)[OF assms] by (rule sum_list_distinct_conv_sum_set)
  finally show ?thesis by (simp only: history_patterns_keys(2)[OF assms])
qed

lemma occurrences_total:
  "(\<Sum>pattern\<in>set (window_patterns outcomes). occurrences outcomes pattern)
   = length outcomes - (history_m - 1)"
proof -
  have "sum (count_list (window_patterns outcomes)) (set (window_patterns outcomes))
        = length (window_patterns outcomes)"
    by (rule sum_count_set) simp_all
  then show ?thesis by (simp add: occurrences_def window_count)
qed

lemma branch_step_closed:
  "branch_step (line, outcomes) (a, y, w, n) =
     (if length outcomes < history_m then (a, y, w, n)
      else (a + line_linear outcomes, y + line_yokota outcomes,
            w + line_per_workload outcomes, n + (length outcomes - (history_m - 1))))"
proof (cases "length outcomes < history_m")
  case True
  then show ?thesis by (simp add: branch_step_def)
next
  case False
  then have len: "history_m \<le> length outcomes" by simp
  note rate = window_pattern_rate[OF len]
  have "fold pattern_step (history_patterns outcomes) (a, y, w, n) =
      (a + line_linear outcomes, y + line_yokota outcomes,
       w + line_per_workload outcomes, n + (length outcomes - (history_m - 1)))"
    unfolding fold_pattern_step sum_over_history[OF len] line_linear_def line_yokota_def
      line_per_workload_def
    by (simp add: rate occurrences_total cong: sum.cong if_cong)
  then show ?thesis using False by (simp add: branch_step_def)
qed

lemma fold_branch_step:
  "fold branch_step branches (a, y, w, n) =
     (a + (\<Sum>outcomes\<leftarrow>contributing_lines branches. line_linear outcomes),
      y + (\<Sum>outcomes\<leftarrow>contributing_lines branches. line_yokota outcomes),
      w + (\<Sum>outcomes\<leftarrow>contributing_lines branches. line_per_workload outcomes),
      n + (\<Sum>outcomes\<leftarrow>contributing_lines branches. length outcomes - (history_m - 1)))"
proof (induction branches arbitrary: a y w n)
  case Nil
  show ?case by (simp add: contributing_lines_def)
next
  case (Cons b branches)
  obtain line outcomes where b: "b = (line, outcomes)" by (cases b)
  show ?case
    by (simp add: b branch_step_closed Cons.IH contributing_lines_def algebra_simps)
qed

lemma branch_entropy_closed:
  "branch_entropy branches =
     (\<Sum>outcomes\<leftarrow>contributing_lines branches. line_linear outcomes,
      \<Sum>outcomes\<leftarrow>contributing_lines branches. line_yokota outcomes,
      \<Sum>outcomes\<leftarrow>contributing_lines branches. line_per_workload outcomes,
      \<Sum>outcomes\<leftarrow>contributing_lines branches. length outcomes - (history_m - 1))"
  by (simp add: branch_entropy_def fold_branch_step)

subsection \<open>Weighted and unweighted sums\<close>

lemma count_list_le_length: "count_list xs x \<le> length xs"
  by (induction xs) auto

lemma window_rate_bounds:
  assumes "history_m \<le> length outcomes" "pattern \<in> set (window_patterns outcomes)"
  shows "0 \<le> taken_rate pattern" "taken_rate pattern \<le> 1"
proof -
  show "0 \<le> taken_rate pattern" by (simp add: taken_rate_def)
  obtain i where i: "i < length outcomes - (history_m - 1)"
    and p: "pattern = map (\<lambda>b. if b then CHR ''1'' else CHR ''0'') (take history_m (drop i outcomes))"
    using assms(2) by (auto simp: window_patterns_def)
  have "length pattern = 16" using i assms(1) by (simp add: p history_m_def)
  then have "count_list pattern CHR ''1'' \<le> 16" using count_list_le_length[of pattern] by simp
  then show "taken_rate pattern \<le> 1" by (simp add: taken_rate_def)
qed

lemma entropy_term_nonneg:
  fixes p :: real
  assumes "0 < p" "p \<le> 1"
  shows "0 \<le> - (p * log 2 p)"
proof -
  have "log 2 p \<le> 0" using assms by simp
  then have "p * log 2 p \<le> 0" using assms(1) by (simp add: mult_le_0_iff)
  then show ?thesis by simp
qed

lemma entropy_term_pos:
  fixes p :: real
  assumes "0 < p" "p < 1"
  shows "0 < - (p * log 2 p)"
proof -
  have "log 2 p < 0" using assms by simp
  then have "p * log 2 p < 0" using assms(1) by (simp add: mult_less_0_iff)
  then show ?thesis by simp
qed

lemma occurrences_pos:
  assumes "pattern \<in> set (window_patterns outcomes)"
  shows "1 \<le> occurrences outcomes pattern"
proof -
  have "count_list (window_patterns outcomes) pattern \<noteq> 0"
    using assms by (simp only: count_list_0_iff) simp
  then show ?thesis by (simp add: occurrences_def)
qed

lemma pattern_term_le:
  assumes "history_m \<le> length outcomes" "pattern \<in> set (window_patterns outcomes)"
  shows "(if taken_rate pattern \<noteq> 0 then - (taken_rate pattern * log 2 (taken_rate pattern)) else 0)
        \<le> (if taken_rate pattern \<noteq> 0
           then - (real (occurrences outcomes pattern) * taken_rate pattern * log 2 (taken_rate pattern))
           else 0)"
proof (cases "taken_rate pattern = 0")
  case True then show ?thesis by simp
next
  case False
  then have p: "0 < taken_rate pattern" "taken_rate pattern \<le> 1"
    using window_rate_bounds[OF assms] by simp_all
  have "1 * (- (taken_rate pattern * log 2 (taken_rate pattern)))
        \<le> real (occurrences outcomes pattern) * (- (taken_rate pattern * log 2 (taken_rate pattern)))"
    using occurrences_pos[OF assms(2)] entropy_term_nonneg[OF p] by (intro mult_right_mono) simp_all
  then show ?thesis using False by (simp add: algebra_simps)
qed

lemma line_per_workload_le:
  assumes "history_m \<le> length outcomes"
  shows "line_per_workload outcomes \<le> line_yokota outcomes"
  unfolding line_per_workload_def line_yokota_def
  by (rule sum_mono) (rule pattern_term_le[OF assms])

lemma line_per_workload_less:
  assumes "history_m \<le> length outcomes"
    and "pattern \<in> set (window_patterns outcomes)"
    and "2 \<le> occurrences outcomes pattern" "0 < taken_rate pattern" "taken_rate pattern < 1"
  shows "line_per_workload outcomes < line_yokota outcomes"
proof -
  let ?w = "\<lambda>pattern. if taken_rate pattern \<noteq> 0
              then - (taken_rate pattern * log 2 (taken_rate pattern)) else 0"
  let ?y = "\<lambda>pattern. if taken_rate pattern \<noteq> 0
              then - (real (occurrences outcomes pattern) * taken_rate pattern * log 2 (taken_rate pattern))
              else 0"
  have "1 * (- (taken_rate pattern * log 2 (taken_rate pattern)))
        < real (occurrences outcomes pattern) * (- (taken_rate pattern * log 2 (taken_rate pattern)))"
    using assms(3) entropy_term_pos[OF assms(4,5)] by (intro mult_strict_right_mono) simp_all
  then have lt: "?w pattern < ?y pattern" using assms(4) by (simp add: algebra_simps)
  have "sum ?w (set (window_patterns outcomes)) < sum ?y (set (window_patterns outcomes))"
  proof (rule sum_strict_mono_ex1)
    show "finite (set (window_patterns outcomes))" by simp
    show "\<forall>q\<in>set (window_patterns outcomes). ?w q \<le> ?y q"
      using pattern_term_le[OF assms(1)] by blast
    show "\<exists>q\<in>set (window_patterns outcomes). ?w q < ?y q"
      using lt assms(2) by blast
  qed
  then show ?thesis by (simp add: line_per_workload_def line_yokota_def)
qed

lemma sum_per_workload_le: "sum_per_workload branches \<le> sum_yokota branches"
  unfolding sum_per_workload_def sum_yokota_def
  by (rule sum_list_mono) (simp add: contributing_lines_def line_per_workload_le)

lemma sum_list_strict:
  fixes f g :: "'a \<Rightarrow> real"
  assumes "\<And>x. x \<in> set xs \<Longrightarrow> f x \<le> g x" "a \<in> set xs" "f a < g a"
  shows "(\<Sum>x\<leftarrow>xs. f x) < (\<Sum>x\<leftarrow>xs. g x)"
  using assms
proof (induction xs)
  case Nil
  then show ?case by simp
next
  case (Cons x xs)
  have le: "(\<Sum>x\<leftarrow>xs. f x) \<le> (\<Sum>x\<leftarrow>xs. g x)"
    by (rule sum_list_mono) (simp add: Cons.prems(1))
  show ?case
  proof (cases "a = x")
    case True
    then show ?thesis using le Cons.prems(3) by simp
  next
    case False
    then have "a \<in> set xs" using Cons.prems(2) by simp
    then have "(\<Sum>x\<leftarrow>xs. f x) < (\<Sum>x\<leftarrow>xs. g x)"
      using Cons.prems by (intro Cons.IH) simp_all
    moreover have "f x \<le> g x" by (simp add: Cons.prems(1))
    ultimately show ?thesis by simp
  qed
qed

lemma repeated_pattern_strict:
  assumes "repeated_pattern branches"
  shows "sum_per_workload branches < sum_yokota branches"
proof -
  obtain outcomes pattern where o: "outcomes \<in> set (contributing_lines branches)"
    and p: "pattern \<in> set (window_patterns outcomes)"
    and c: "2 \<le> occurrences outcomes pattern" "0 < taken_rate pattern" "taken_rate pattern < 1"
    using assms unfolding repeated_pattern_def list_ex_iff by blast
  have len: "history_m \<le> length x" if "x \<in> set (contributing_lines branches)" for x
    using that by (simp add: contributing_lines_def)
  show ?thesis
    unfolding sum_per_workload_def sum_yokota_def
  proof (rule sum_list_strict)
    show "line_per_workload x \<le> line_yokota x" if "x \<in> set (contributing_lines branches)" for x
      using line_per_workload_le[OF len[OF that]] .
    show "outcomes \<in> set (contributing_lines branches)" by (rule o)
    show "line_per_workload outcomes < line_yokota outcomes"
      using line_per_workload_less[OF len[OF o] p c] .
  qed
qed

lemma sum_windows_zero:
  assumes "sum_windows branches = 0"
  shows "contributing_lines branches = []"
proof (rule ccontr)
  assume "contributing_lines branches \<noteq> []"
  then obtain x xs where "contributing_lines branches = x # xs"
    by (cases "contributing_lines branches") simp_all
  then have x: "x \<in> set (contributing_lines branches)" by simp
  then have "history_m \<le> length x" by (simp add: contributing_lines_def)
  then have "0 < length x - 15" by (simp add: history_m_def)
  moreover have "length x - 15 \<le> sum_windows branches"
    unfolding sum_windows_def using x by (simp add: member_le_sum_list)
  ultimately show False using assms by simp
qed

lemma branch_entropy_sums:
  "branch_entropy branches =
     (sum_linear branches, sum_yokota branches, sum_per_workload branches, sum_windows branches)"
  by (simp add: branch_entropy_closed sum_linear_def sum_yokota_def sum_per_workload_def
      sum_windows_def history_m_def)

lemma average_linear_entropy_value:
  "average_linear_entropy (branch_entropy branches) =
     Fin (if sum_windows branches = 0 then 0
          else sum_linear branches / real (sum_windows branches))"
proof (cases "sum_windows branches = 0")
  case True
  then have "sum_linear branches = 0" using sum_windows_zero[OF True] by (simp add: sum_linear_def)
  then show ?thesis using True
    by (simp add: branch_entropy_sums average_linear_entropy_def fdiv_def isnan_def)
next
  case False
  then show ?thesis
    by (simp add: branch_entropy_sums average_linear_entropy_def fdiv_def isnan_def)
qed

lemma control_section_value:
  "control_section p =
     Inr \<lparr>total_unique_branches = length (m_branchOps p),
          unique_branch_addresses =
            (LEAST k. ceil90 (sum_list (map (\<lambda>x. length (snd x)) (m_branchOps p)))
                        \<le> sum_list (take k (rev (sort (map (\<lambda>x. length (snd x)) (m_branchOps p)))))),
          yokota_entropy = sum_yokota (m_branchOps p),
          yokota_entropy_per_workload = sum_per_workload (m_branchOps p),
          average_entropy =
            Fin (if sum_windows (m_branchOps p) = 0 then 0
                 else sum_linear (m_branchOps p) / real (sum_windows (m_branchOps p)))\<rparr>"
proof -
  let ?cs = "map (\<lambda>x. length (snd x)) (sort_key (\<lambda>x. - int (length (snd x))) (m_branchOps p))"
  have cs: "?cs = rev (sort (map (\<lambda>x. length (snd x)) (m_branchOps p)))"
    by (rule map_sort_key_desc)
  have total: "sum_list ?cs = sum_list (map (\<lambda>x. length (snd x)) (m_branchOps p))"
    by (rule sum_list_mset_cong) simp
  have "cover (ceil90 (sum_list ?cs)) 0 ?cs
        = Inr (LEAST k. ceil90 (sum_list ?cs) \<le> sum_list (take k ?cs))"
    by (rule cover_ceil90)
  then have "cover (ceil90 (sum_list ?cs)) 0 ?cs
        = Inr (LEAST k. ceil90 (sum_list (map (\<lambda>x. length (snd x)) (m_branchOps p)))
                         \<le> sum_list (take k (rev (sort (map (\<lambda>x. length (snd x)) (m_branchOps p))))))"
    by (simp only: total) (simp only: cs)
  moreover have "average_linear_entropy (sum_linear (m_branchOps p), sum_yokota (m_branchOps p),
                    sum_per_workload (m_branchOps p), sum_windows (m_branchOps p))
        = Fin (if sum_windows (m_branchOps p) = 0 then 0
               else sum_linear (m_branchOps p) / real (sum_windows (m_branchOps p)))"
    using average_linear_entropy_value[of "m_branchOps p"] by (simp only: branch_entropy_sums)
  ultimately show ?thesis
    by (simp add: control_section_def Let_def ebind_def branch_entropy_sums)
qed

subsection \<open>When kernelEnd returns\<close>

lemma min_element_returns: "v \<noteq> [] \<Longrightarrow> \<exists>x. min_element v = Inr x"
  by (cases v) (simp_all add: min_element_def)

lemma max_element_returns: "v \<noteq> [] \<Longrightarrow> \<exists>x. max_element v = Inr x"
  by (cases v) (simp_all add: max_element_def)

lemma median_returns: "v \<noteq> [] \<Longrightarrow> \<exists>x. median v = Inr x"
  by (simp add: median_def Let_def)

lemma parallelism_section_returns:
  assumes "m_instructionsToBarrier p \<noteq> []" "m_instructionsPerWorkitem p \<noteq> []"
    "m_instructionWidth p \<noteq> []"
  shows "\<exists>pa. parallelism_section p n = Inr pa"
proof -
  obtain a where a: "min_element (m_instructionsToBarrier p) = Inr a"
    using min_element_returns[OF assms(1)] by blast
  obtain b where b: "max_element (m_instructionsToBarrier p) = Inr b"
    using max_element_returns[OF assms(1)] by blast
  obtain c where c: "median (m_instructionsToBarrier p) = Inr c"
    using median_returns[OF assms(1)] by blast
  obtain d where d: "min_element (m_instructionsPerWorkitem p) = Inr d"
    using min_element_returns[OF assms(2)] by blast
  obtain e where e: "max_element (m_instructionsPerWorkitem p) = Inr e"
    using max_element_returns[OF assms(2)] by blast
  obtain f where f: "median (m_instructionsPerWorkitem p) = Inr f"
    using median_returns[OF assms(2)] by blast
  have w: "map fst (m_instructionWidth p) \<noteq> []" using assms(3) by simp
  obtain g where g: "min_element (map fst (m_instructionWidth p)) = Inr g"
    using min_element_returns[OF w] by blast
  obtain h where h: "max_element (map fst (m_instructionWidth p)) = Inr h"
    using max_element_returns[OF w] by blast
  show ?thesis by (simp add: parallelism_section_def a b c d e f g h ebind_def Let_def)
qed

lemma compute_section_returns: "\<exists>c. compute_section p = Inr c"
proof -
  have "cover (ceil90 (sum_list (map snd (sort_by_count (m_computeOps p))))) 0
          (map snd (sort_by_count (m_computeOps p)))
        = Inr (LEAST k. ceil90 (sum_list (map snd (sort_by_count (m_computeOps p))))
                         \<le> sum_list (take k (map snd (sort_by_count (m_computeOps p)))))"
    by (rule cover_ceil90)
  then show ?thesis by (simp add: compute_section_def Let_def ebind_def)
qed

lemma kernelEnd_returns:
  assumes "m_instructionsToBarrier p \<noteq> []" "m_instructionsPerWorkitem p \<noteq> []"
    "m_instructionWidth p \<noteq> []"
  shows "\<exists>r p'. kernelEnd p = Inr (r, p')"
proof -
  obtain c where c: "compute_section p = Inr c" using compute_section_returns by blast
  obtain pa where pa: "parallelism_section p (total_instruction_count c) = Inr pa"
    using parallelism_section_returns[OF assms] by blast
  show ?thesis
    by (simp add: kernelEnd_def kernelEnd_metrics_def c pa ebind_def
        memory_section_value control_section_value)
qed

lemma kernelEnd_control:
  assumes "kernelEnd p = Inr (r, p')"
  shows "\<exists>ms. kernelEnd_metrics p = Inr ms \<and> stdout r = stdout_lines p ms \<and> csv r = csv_rows p ms \<and>
           yokota_entropy (control ms) = sum_yokota (m_branchOps p) \<and>
           yokota_entropy_per_workload (control ms) = sum_per_workload (m_branchOps p)"
proof -
  obtain ms where ms: "kernelEnd_metrics p = Inr ms"
    using assms by (cases "kernelEnd_metrics p") (simp_all add: kernelEnd_def ebind_def)
  then have r: "stdout r = stdout_lines p ms" "csv r = csv_rows p ms"
    using assms by (auto simp: kernelEnd_def ebind_def)
  obtain c where c: "compute_section p = Inr c"
    using ms by (cases "compute_section p") (simp_all add: kernelEnd_metrics_def ebind_def)
  obtain pa where pa: "parallelism_section p (total_instruction_count c) = Inr pa"
    using ms c by (cases "parallelism_section p (total_instruction_count c)")
      (simp_all add: kernelEnd_metrics_def ebind_def)
  have "control ms = \<lparr>total_unique_branches = length (m_branchOps p),
          unique_branch_addresses =
            (LEAST k. ceil90 (sum_list (map (\<lambda>x. length (snd x)) (m_branchOps p)))
                        \<le> sum_list (take k (rev (sort (map (\<lambda>x. length (snd x)) (m_branchOps p)))))),
          yokota_entropy = sum_yokota (m_branchOps p),
          yokota_entropy_per_workload = sum_per_workload (m_branchOps p),
          average_entropy =
            Fin (if sum_windows (m_branchOps p) = 0 then 0
                 else sum_linear (m_branchOps p) / real (sum_windows (m_branchOps p)))\<rparr>"
    using ms c pa
    by (auto simp: kernelEnd_metrics_def ebind_def memory_section_value control_section_value)
  then show ?thesis using ms r by simp
qed

lemma yokota_rows:
  "map_of (csv_rows p ms) ''branch entropy (yokota)''
     = Some (Num (Fin (yokota_entropy_per_workload (control ms))))"
  "map_of (stdout_lines p ms) ''Yokota Branch Entropy''
     = Some [Num (Fin (yokota_entropy (control ms)))]"
  by (simp_all add: csv_rows_def stdout_lines_def Let_def
      upt_rec[of _ "numeral _"] upt_rec[of _ "Suc _"])

subsection \<open>The alternating branch\<close>

lemma alternating_64:
  "alternating 64 =
     [True, False, True, False, True, False, True, False,
      True, False, True, False, True, False, True, False,
      True, False, True, False, True, False, True, False,
      True, False, True, False, True, False, True, False,
      True, False, True, False, True, False, True, False,
      True, False, True, False, True, False, True, False,
      True, False, True, False, True, False, True, False,
      True, False, True, False, True, False, True, False]"
  unfolding alternating_def by code_simp

lemma alternating_18:
  "alternating 18 =
     [True, False, True, False, True, False, True, False, True,
      False, True, False, True, False, True, False, True, False]"
  unfolding alternating_def by code_simp

lemma alternating_18_reached: "final_plugin (alternating_work 18) = Inr (alternating_aggregate 18)"
  unfolding alternating_work_def alternating_aggregate_def alternating_18
  by (simp add: final_plugin_def branch_instruction_def hook_defs relabel_loop_0)

lemma alternating_18_repeated: "repeated_pattern (m_branchOps (alternating_aggregate 18))"
  unfolding alternating_aggregate_def alternating_18
  by (simp add: repeated_pattern_def contributing_lines_def window_patterns_def history_m_def
      occurrences_def taken_rate_def constructor_def
      upt_rec[of _ "numeral _"] upt_rec[of _ "Suc _"])

lemma alternating_64_average:
  "emitted_csv (alternating_kernel 64) ''branch entropy (average linear)''
     = Inr [Some (Num (Fin 1))]"
  unfolding alternating_kernel_def alternating_work_def alternating_64
  by (simp add: emitted_csv_def branch_instruction_def hook_defs relabel_loop_0 report_defs
      csv_rows_def branch_step_def history_patterns_def current_pattern_def
      history_m_def probability_of_taken_def
      upt_rec[of _ "numeral _"] upt_rec[of _ "Suc _"])

text \<open>
  Claim C1: branch entropy is computed with a history window of 16. A branch line with at
  least 16 outcomes contributes (length - 15) windows; each distinct pattern of a line,
  with occurrence count \<open>c\<close> and taken-rate \<open>p\<close> = (number of 1 in the pattern) / 16, adds
  \<open>-c * p * log2 p\<close> to \<^verbatim>\<open>yokota_entropy\<close> and \<open>-p * log2 p\<close> to
  \<^verbatim>\<open>yokota_entropy_per_workload\<close> when \<open>p \<noteq> 0\<close>, and \<open>c * 2 * min p (1 - p)\<close> to the numerator of
  the average with \<open>c\<close> added to \<open>N\<close>; shorter lines contribute nothing; the average is the
  numerator over \<open>N\<close>, and 0 when that is not a number. A single line of 64 alternating
  outcomes has average linear branch entropy 1.

  The loops of the code (\<open>branch_entropy\<close>, in \<open>control_section\<close>) compute the sums that
  \<open>sum_linear\<close>, \<open>sum_yokota\<close>, \<open>sum_per_workload\<close> and \<open>sum_windows\<close> define in these words;
  floating point is read as real arithmetic.
\<close>

theorem branch_entropy_history_window:
  "(\<exists>co. control_section p = Inr co \<and>
      yokota_entropy co = sum_yokota (m_branchOps p) \<and>
      yokota_entropy_per_workload co = sum_per_workload (m_branchOps p) \<and>
      average_entropy co =
        Fin (if sum_windows (m_branchOps p) = 0 then 0
             else sum_linear (m_branchOps p) / real (sum_windows (m_branchOps p)))) \<and>
   branch_entropy (m_branchOps p) =
     (sum_linear (m_branchOps p), sum_yokota (m_branchOps p),
      sum_per_workload (m_branchOps p), sum_windows (m_branchOps p)) \<and>
   length (window_patterns outcomes) = length outcomes - 15 \<and>
   (\<Sum>pattern\<in>set (window_patterns outcomes). occurrences outcomes pattern)
     = length outcomes - 15 \<and>
   emitted_csv (alternating_kernel 64) ''branch entropy (average linear)''
     = Inr [Some (Num (Fin 1))]"
proof -
  have "\<exists>co. control_section p = Inr co \<and>
      yokota_entropy co = sum_yokota (m_branchOps p) \<and>
      yokota_entropy_per_workload co = sum_per_workload (m_branchOps p) \<and>
      average_entropy co =
        Fin (if sum_windows (m_branchOps p) = 0 then 0
             else sum_linear (m_branchOps p) / real (sum_windows (m_branchOps p)))"
    by (simp add: control_section_value)
  moreover have "length (window_patterns outcomes) = length outcomes - 15"
    by (simp add: window_count history_m_def)
  moreover have "(\<Sum>pattern\<in>set (window_patterns outcomes). occurrences outcomes pattern)
     = length outcomes - 15"
    by (simp add: occurrences_total history_m_def)
  ultimately show ?thesis
    using branch_entropy_sums alternating_64_average by blast
qed

text \<open>
  Claim C10: the CSV row \<open>branch entropy (yokota)\<close> carries
  \<^verbatim>\<open>yokota_entropy_per_workload\<close>, the sum of \<open>-p * log2 p\<close> over the distinct patterns of
  every branch line without their occurrence counts, whereas the line
  \<open>Yokota Branch Entropy\<close> of standard output carries the sum weighted by the counts; the
  two differ whenever a pattern with taken-rate strictly between 0 and 1 occurs more than
  once (among the windows of one branch line, where the code counts occurrences).
\<close>

theorem yokota_csv_row_is_unweighted:
  assumes "kernelEnd p = Inr (r, p')"
  shows "map_of (csv r) ''branch entropy (yokota)''
           = Some (Num (Fin (sum_per_workload (m_branchOps p)))) \<and>
         map_of (stdout r) ''Yokota Branch Entropy''
           = Some [Num (Fin (sum_yokota (m_branchOps p)))] \<and>
         (repeated_pattern (m_branchOps p) \<longrightarrow>
            sum_per_workload (m_branchOps p) < sum_yokota (m_branchOps p))"
proof -
  obtain ms where ms: "stdout r = stdout_lines p ms" "csv r = csv_rows p ms"
    "yokota_entropy (control ms) = sum_yokota (m_branchOps p)"
    "yokota_entropy_per_workload (control ms) = sum_per_workload (m_branchOps p)"
    using kernelEnd_control[OF assms] by blast
  show ?thesis using repeated_pattern_strict by (simp add: ms yokota_rows)
qed

text \<open>The aggregate of a work-item with 18 alternating outcomes at one line: three windows,
  one of which occurs twice, each with taken-rate 1/2.\<close>

theorem yokota_csv_row_is_unweighted_witness:
  "\<exists>r p'. kernelEnd (alternating_aggregate 18) = Inr (r, p') \<and>
     repeated_pattern (m_branchOps (alternating_aggregate 18)) \<and>
     map_of (csv r) ''branch entropy (yokota)''
       = Some (Num (Fin (sum_per_workload (m_branchOps (alternating_aggregate 18))))) \<and>
     map_of (stdout r) ''Yokota Branch Entropy''
       = Some [Num (Fin (sum_yokota (m_branchOps (alternating_aggregate 18))))] \<and>
     sum_per_workload (m_branchOps (alternating_aggregate 18))
       < sum_yokota (m_branchOps (alternating_aggregate 18))"
proof -
  obtain r p' where k: "kernelEnd (alternating_aggregate 18) = Inr (r, p')"
    using kernelEnd_returns[of "alternating_aggregate 18"]
    by (auto simp: alternating_aggregate_def constructor_def)
  show ?thesis
    using yokota_csv_row_is_unweighted[OF k] alternating_18_repeated k by blast
qed

section \<open>The order of the merges\<close>

subsection \<open>Merging counting maps\<close>

lemma filter_absent_key: "k \<notin> fst ` set w \<Longrightarrow> filter (\<lambda>e. fst e = k) w = []"
  by (induction w) auto

lemma add_counts_Nil: "add_counts [] f = f"
  by (simp add: add_counts_def)

lemma add_counts_Cons:
  "add_counts (e # w) (map_of m) = add_counts w (map_of (um_add (fst e) (snd e) m))"
proof
  fix k
  have absent: "sum_list (map snd (filter (\<lambda>e. fst e = k) w)) = 0" if "k \<notin> fst ` set w"
    using filter_absent_key[OF that] by simp
  show "add_counts (e # w) (map_of m) k = add_counts w (map_of (um_add (fst e) (snd e) m)) k"
  proof (cases "k = fst e")
    case True
    show ?thesis
    proof (cases "k \<in> fst ` set w")
      case True
      with \<open>k = fst e\<close> show ?thesis
        by (simp add: add_counts_def map_of_um_add split: option.splits)
    next
      case False
      with \<open>k = fst e\<close> absent[OF False] show ?thesis
        by (simp add: add_counts_def map_of_um_add split: option.splits)
    qed
  next
    case False
    then show ?thesis
      by (cases "k \<in> fst ` set w") (simp_all add: add_counts_def map_of_um_add)
  qed
qed

lemma map_of_merge_counts: "map_of (merge_counts w g) = add_counts w (map_of g)"
  unfolding merge_counts_def
proof (induction w arbitrary: g)
  case Nil
  show ?case by (simp add: add_counts_Nil)
next
  case (Cons e w)
  have "map_of (fold (\<lambda>item. um_add (fst item) (snd item)) (e # w) g)
        = add_counts w (map_of (um_add (fst e) (snd e) g))"
    by (simp add: Cons.IH)
  then show ?case by (simp only: add_counts_Cons)
qed

lemma add_counts_commute: "add_counts a (add_counts b f) = add_counts b (add_counts a f)"
  by (rule ext) (auto simp: add_counts_def split: option.splits)

lemma distinct_merge_counts:
  "distinct (map fst g) \<Longrightarrow> distinct (map fst (merge_counts w g))"
  unfolding merge_counts_def
  by (induction w arbitrary: g) (simp_all add: distinct_um_add)

lemma distinct_keys_mset:
  assumes "distinct (map fst xs)" "distinct (map fst ys)" "map_of xs = map_of ys"
  shows "mset xs = mset ys"
proof -
  have "set xs = set ys" using assms by (simp only: map_of_inject_set)
  moreover have "distinct xs" "distinct ys" using assms(1,2) by (simp_all add: distinct_map)
  ultimately show ?thesis by (simp only: set_eq_iff_mset_eq_distinct)
qed

subsection \<open>Merging branch outcomes, seen through the lengths\<close>

lemma lengths_push_back: "branch_lengths (um_push_back k b m) = um_add k 1 (branch_lengths m)"
  by (induction m) (auto simp: branch_lengths_def)

lemma um_add_twice: "um_add k a (um_add k b m) = um_add k (b + a) m"
  by (induction m) auto

lemma lengths_fold_push_back:
  "branch_lengths (fold (um_push_back k) outcomes m) =
     (if outcomes = [] then branch_lengths m else um_add k (length outcomes) (branch_lengths m))"
proof (induction outcomes arbitrary: m)
  case Nil
  show ?case by simp
next
  case (Cons b outcomes)
  show ?case
    by (simp add: Cons.IH lengths_push_back um_add_twice)
qed

lemma lengths_merge_branches:
  "branch_lengths (merge_branches w g) =
     merge_counts (branch_lengths (filter (\<lambda>item. snd item \<noteq> []) w)) (branch_lengths g)"
  unfolding merge_branches_def merge_counts_def
proof (induction w arbitrary: g)
  case Nil
  show ?case by (simp add: branch_lengths_def)
next
  case (Cons e w)
  show ?case
    by (simp add: Cons.IH lengths_fold_push_back) (simp add: branch_lengths_def)
qed

lemma keys_branch_lengths: "map fst (branch_lengths m) = map fst m"
  by (simp add: branch_lengths_def comp_def)

subsection \<open>The aggregate after a sequence of merges\<close>

lemma merged_fields:
  "m_memoryOps (fold workGroupComplete ws p) = fold (\<lambda>w l. l @ memoryOps w) ws (m_memoryOps p)"
  "m_computeOps (fold workGroupComplete ws p) =
     fold (\<lambda>w. merge_counts (computeOps w)) ws (m_computeOps p)"
  "m_branchOps (fold workGroupComplete ws p) =
     fold (\<lambda>w. merge_branches (branchOps w)) ws (m_branchOps p)"
  "m_instructionsToBarrier (fold workGroupComplete ws p) =
     fold (\<lambda>w l. l @ instructionsBetweenBarriers w) ws (m_instructionsToBarrier p)"
  "m_instructionWidth (fold workGroupComplete ws p) =
     fold (\<lambda>w. merge_counts (instructionWidth w)) ws (m_instructionWidth p)"
  "m_instructionsPerWorkitem (fold workGroupComplete ws p) =
     fold (\<lambda>w l. l @ instructionsPerWorkitem w) ws (m_instructionsPerWorkitem p)"
  "m_instructionsBetweenLoadOrStore (fold workGroupComplete ws p) =
     fold (\<lambda>w l. l @ instructionsBetweenLoadOrStore w) ws (m_instructionsBetweenLoadOrStore p)"
  "m_loadInstructionLabels (fold workGroupComplete ws p) =
     fold (\<lambda>w. merge_counts (loadInstructionLabels w)) ws (m_loadInstructionLabels p)"
  "m_storeInstructionLabels (fold workGroupComplete ws p) =
     fold (\<lambda>w. merge_counts (storeInstructionLabels w)) ws (m_storeInstructionLabels p)"
  "m_threads_invoked (fold workGroupComplete ws p) =
     fold (\<lambda>w n. n + threads_invoked w) ws (m_threads_invoked p)"
  "m_barriers_hit (fold workGroupComplete ws p) =
     fold (\<lambda>w n. n + barriers_hit w) ws (m_barriers_hit p)"
  "m_global_memory_access (fold workGroupComplete ws p) =
     fold (\<lambda>w n. n + global_memory_access_count w) ws (m_global_memory_access p)"
  "m_local_memory_access (fold workGroupComplete ws p) =
     fold (\<lambda>w n. n + local_memory_access_count w) ws (m_local_memory_access p)"
  "m_constant_memory_access (fold workGroupComplete ws p) =
     fold (\<lambda>w n. n + constant_memory_access_count w) ws (m_constant_memory_access p)"
  by (induction ws arbitrary: p) (simp_all add: workGroupComplete_def)

lemma mset_fold_append:
  "mset (fold (\<lambda>w l. l @ g w) ws l0) = fold (\<lambda>w M. M + mset (g w)) ws (mset l0)"
  by (induction ws arbitrary: l0) simp_all

lemma permuted_lists:
  assumes "mset ws = mset ws'"
  shows "mset (fold (\<lambda>w l. l @ g w) ws l0) = mset (fold (\<lambda>w l. l @ g w) ws' l0)"
proof -
  have "fold (\<lambda>w M. M + mset (g w)) ws = fold (\<lambda>w M. M + mset (g w)) ws'"
    by (rule fold_multiset_equiv) (auto simp: fun_eq_iff assms)
  then show ?thesis by (simp add: mset_fold_append)
qed

lemma permuted_counters:
  fixes n0 :: nat
  assumes "mset ws = mset ws'"
  shows "fold (\<lambda>w n. n + g w) ws n0 = fold (\<lambda>w n. n + g w) ws' n0"
proof -
  have "fold (\<lambda>w n. n + g w) ws = fold (\<lambda>w n. n + g w) ws'"
    by (rule fold_multiset_equiv) (auto simp: fun_eq_iff assms)
  then show ?thesis by simp
qed

lemma map_of_fold_merge_counts:
  "map_of (fold (\<lambda>w. merge_counts (g w)) ws m0) = fold (\<lambda>w. add_counts (g w)) ws (map_of m0)"
  by (induction ws arbitrary: m0) (simp_all add: map_of_merge_counts)

lemma distinct_fold_merge_counts:
  "distinct (map fst m0) \<Longrightarrow> distinct (map fst (fold (\<lambda>w. merge_counts (g w)) ws m0))"
  by (induction ws arbitrary: m0) (simp_all add: distinct_merge_counts)

lemma permuted_counts:
  assumes "mset ws = mset ws'" "distinct (map fst m0)"
  shows "mset (fold (\<lambda>w. merge_counts (g w)) ws m0) = mset (fold (\<lambda>w. merge_counts (g w)) ws' m0)"
proof (rule distinct_keys_mset)
  show "distinct (map fst (fold (\<lambda>w. merge_counts (g w)) ws m0))"
    by (rule distinct_fold_merge_counts) (rule assms(2))
  show "distinct (map fst (fold (\<lambda>w. merge_counts (g w)) ws' m0))"
    by (rule distinct_fold_merge_counts) (rule assms(2))
  have "fold (\<lambda>w. add_counts (g w)) ws = fold (\<lambda>w. add_counts (g w)) ws'"
    by (rule fold_multiset_equiv) (auto simp: fun_eq_iff assms add_counts_commute)
  then show "map_of (fold (\<lambda>w. merge_counts (g w)) ws m0)
             = map_of (fold (\<lambda>w. merge_counts (g w)) ws' m0)"
    by (simp add: map_of_fold_merge_counts)
qed

lemma lengths_fold_merge_branches:
  "branch_lengths (fold (\<lambda>w. merge_branches (g w)) ws b0) =
     fold (\<lambda>w. merge_counts (branch_lengths (filter (\<lambda>item. snd item \<noteq> []) (g w)))) ws
       (branch_lengths b0)"
  by (induction ws arbitrary: b0) (simp_all add: lengths_merge_branches)

lemma permuted_branches:
  assumes "mset ws = mset ws'" "distinct (map fst b0)"
  shows "mset (branch_lengths (fold (\<lambda>w. merge_branches (g w)) ws b0))
         = mset (branch_lengths (fold (\<lambda>w. merge_branches (g w)) ws' b0))"
  unfolding lengths_fold_merge_branches
  by (rule permuted_counts) (simp_all add: assms keys_branch_lengths)

lemma permuted_merges:
  assumes "mset ws = mset ws'"
    and "distinct (map fst (m_computeOps p))" "distinct (map fst (m_branchOps p))"
    and "distinct (map fst (m_instructionWidth p))"
    and "distinct (map fst (m_loadInstructionLabels p))"
    and "distinct (map fst (m_storeInstructionLabels p))"
  shows "same_aggregate (fold workGroupComplete ws p) (fold workGroupComplete ws' p)"
  unfolding same_aggregate_def merged_fields
  using assms
  by (intro conjI permuted_lists permuted_counters permuted_counts permuted_branches)

subsection \<open>Metrics that depend on the aggregate up to order\<close>

lemma sort_mset_cong:
  fixes xs ys :: "nat list"
  shows "mset xs = mset ys \<Longrightarrow> sort xs = sort ys"
  by (metis properties_for_sort sorted_sort mset_sort)

lemma counts_cong:
  assumes "mset m = mset m'"
  shows "map snd (sort_by_count m) = map snd (sort_by_count m')"
proof -
  have "mset (map snd m) = mset (map snd m')" using assms by (metis mset_map)
  then show ?thesis by (simp add: counts_sort_by_count sort_mset_cong)
qed

lemma compute_section_cong:
  assumes "same_aggregate P Q"
  shows "compute_section P = compute_section Q"
proof -
  have "map snd (sort_by_count (m_computeOps P)) = map snd (sort_by_count (m_computeOps Q))"
    using assms by (intro counts_cong) (simp add: same_aggregate_def)
  then show ?thesis by (simp add: compute_section_def Let_def)
qed

lemma min_element_set: "v \<noteq> [] \<Longrightarrow> min_element v = Inr (Min (set v))"
proof (cases v)
  case Nil
  then show "v \<noteq> [] \<Longrightarrow> ?thesis" by simp
next
  case (Cons x xs)
  have "Min (set (x # xs)) = fold min xs x" by (rule Min.set_eq_fold)
  then show ?thesis by (simp only: Cons min_element_def list.case)
qed

lemma max_element_set: "v \<noteq> [] \<Longrightarrow> max_element v = Inr (Max (set v))"
proof (cases v)
  case Nil
  then show "v \<noteq> [] \<Longrightarrow> ?thesis" by simp
next
  case (Cons x xs)
  have "Max (set (x # xs)) = fold max xs x" by (rule Max.set_eq_fold)
  then show ?thesis by (simp only: Cons max_element_def list.case)
qed

lemma min_element_cong:
  assumes "mset v = mset v'"
  shows "min_element v = min_element v'"
proof (cases "v = []")
  case True
  then have "v' = []" using assms by simp
  with True show ?thesis by simp
next
  case False
  then have "v' \<noteq> []" using assms by auto
  moreover have "set v = set v'" using assms by (rule mset_eq_setD)
  ultimately show ?thesis using False by (simp add: min_element_set)
qed

lemma max_element_cong:
  assumes "mset v = mset v'"
  shows "max_element v = max_element v'"
proof (cases "v = []")
  case True
  then have "v' = []" using assms by simp
  with True show ?thesis by simp
next
  case False
  then have "v' \<noteq> []" using assms by auto
  moreover have "set v = set v'" using assms by (rule mset_eq_setD)
  ultimately show ?thesis using False by (simp add: max_element_set)
qed

lemma median_cong:
  assumes "mset v = mset v'"
  shows "median v = median v'"
  using sort_mset_cong[OF assms] by (simp add: median_def)

lemma fold_plus_sum:
  fixes a :: real
  shows "fold (\<lambda>x acc. acc + g x) xs a = a + sum_list (map g xs)"
  by (induction xs arbitrary: a) simp_all

lemma accumulate_mean_cong:
  assumes "mset v = mset v'"
  shows "accumulate_mean v = accumulate_mean v'"
proof -
  have "sum_list (map real v) = sum_list (map real v')" using assms by (rule sum_list_mset_cong)
  moreover have "length v = length v'" using assms by (rule mset_eq_length)
  ultimately show ?thesis by (simp add: accumulate_mean_def fold_plus_sum)
qed

lemma stdev_of_cong:
  assumes "mset w = mset w'"
  shows "stdev_of w mean_fp num = stdev_of w' mean_fp num"
proof -
  have "sum_list (map h w) = sum_list (map h w')" for h :: "nat \<times> nat \<Rightarrow> real"
    using assms by (rule sum_list_mset_cong)
  then show ?thesis
    using fold_plus_sum[of "\<lambda>d. d" _ 0] by (simp add: stdev_of_def cong: fp.case_cong)
qed

lemma parallelism_section_cong:
  assumes "same_aggregate P Q"
  shows "parallelism_section P n = parallelism_section Q n"
proof -
  note a = assms[unfolded same_aggregate_def]
  have itb: "mset (m_instructionsToBarrier P) = mset (m_instructionsToBarrier Q)"
    and ipt: "mset (m_instructionsPerWorkitem P) = mset (m_instructionsPerWorkitem Q)"
    and w: "mset (m_instructionWidth P) = mset (m_instructionWidth Q)"
    and ibl: "mset (m_instructionsBetweenLoadOrStore P) = mset (m_instructionsBetweenLoadOrStore Q)"
    and ld: "mset (m_loadInstructionLabels P) = mset (m_loadInstructionLabels Q)"
    and st: "mset (m_storeInstructionLabels P) = mset (m_storeInstructionLabels Q)"
    and sc: "m_threads_invoked P = m_threads_invoked Q" "m_barriers_hit P = m_barriers_hit Q"
    using a by simp_all
  have keys: "mset (map fst (m_instructionWidth P)) = mset (map fst (m_instructionWidth Q))"
    using w by (metis mset_map)
  have sums:
    "sum_list (map (\<lambda>item. snd item * fst item) (m_instructionWidth P))
       = sum_list (map (\<lambda>item. snd item * fst item) (m_instructionWidth Q))"
    "sum_list (map snd (m_instructionWidth P)) = sum_list (map snd (m_instructionWidth Q))"
    "sum_list (map snd (m_storeInstructionLabels P)) = sum_list (map snd (m_storeInstructionLabels Q))"
    "sum_list (map snd (m_loadInstructionLabels P)) = sum_list (map snd (m_loadInstructionLabels Q))"
    using w ld st by (auto intro: sum_list_mset_cong)
  show ?thesis
    unfolding parallelism_section_def
    by (simp only: min_element_cong[OF itb] max_element_cong[OF itb] median_cong[OF itb]
        min_element_cong[OF ipt] max_element_cong[OF ipt] median_cong[OF ipt]
        min_element_cong[OF keys] max_element_cong[OF keys] sums sc
        accumulate_mean_cong[OF ibl] stdev_of_cong[OF w])
qed

lemma local_address_count_cong:
  assumes "mset ops = mset ops'"
  shows "mset (local_address_count ops k) = mset (local_address_count ops' k)"
  unfolding local_address_count_def
proof (rule distinct_keys_mset)
  show "distinct (map fst (fold (\<lambda>address. um_add (drop_bit k address) 1) ops []))"
    by (rule distinct_histogram) simp
  show "distinct (map fst (fold (\<lambda>address. um_add (drop_bit k address) 1) ops' []))"
    by (rule distinct_histogram) simp
  have s: "set ops = set ops'" using assms by (rule mset_eq_setD)
  have "mset (map (drop_bit k) ops) = mset (map (drop_bit k) ops')" using assms by (metis mset_map)
  then have c: "count_list (map (drop_bit k) ops) a = count_list (map (drop_bit k) ops') a" for a
    by (rule mset_eq_length_filter)
  show "map_of (fold (\<lambda>address. um_add (drop_bit k address) 1) ops [])
        = map_of (fold (\<lambda>address. um_add (drop_bit k address) 1) ops' [])"
    by (rule ext) (simp add: map_of_histogram s c)
qed

lemma address_entropy_cong:
  assumes "mset e = mset e'"
  shows "address_entropy n e = address_entropy n e'"
  unfolding address_entropy_sum by (simp only: sum_list_mset_cong[OF assms])

lemma memory_section_cong:
  assumes "same_aggregate P Q"
  shows "memory_section P = memory_section Q"
proof -
  note a = assms[unfolded same_aggregate_def]
  have ops: "mset (m_memoryOps P) = mset (m_memoryOps Q)" using a by simp
  have sc: "m_global_memory_access P = m_global_memory_access Q"
    "m_local_memory_access P = m_local_memory_access Q"
    "m_constant_memory_access P = m_constant_memory_access Q" using a by simp_all
  note h = local_address_count_cong[OF ops]
  have counts: "map snd (sort_by_count (local_address_count (m_memoryOps P) 0))
      = map snd (sort_by_count (local_address_count (m_memoryOps Q) 0))"
    by (rule counts_cong) (rule h)
  have len: "length (local_address_count (m_memoryOps P) 0)
      = length (local_address_count (m_memoryOps Q) 0)"
    by (rule mset_eq_length) (rule h)
  have sorted: "address_entropy n (sort_by_count (local_address_count (m_memoryOps P) 0))
      = address_entropy n (sort_by_count (local_address_count (m_memoryOps Q) 0))" for n
    by (rule address_entropy_cong) (simp add: sort_by_count_def h)
  have loc: "address_entropy n (local_address_count (m_memoryOps P) k)
      = address_entropy n (local_address_count (m_memoryOps Q) k)" for n k
    by (rule address_entropy_cong) (rule h)
  show ?thesis
    unfolding memory_section_def Let_def
    by (simp only: counts len sorted loc sc)
qed

lemma control_counts_cong:
  assumes "same_aggregate P Q"
  shows "length (m_branchOps P) = length (m_branchOps Q)"
    and "map (\<lambda>x. length (snd x)) (sort_key (\<lambda>x. - int (length (snd x))) (m_branchOps P))
         = map (\<lambda>x. length (snd x)) (sort_key (\<lambda>x. - int (length (snd x))) (m_branchOps Q))"
proof -
  have b: "mset (branch_lengths (m_branchOps P)) = mset (branch_lengths (m_branchOps Q))"
    using assms by (simp add: same_aggregate_def)
  then have "length (branch_lengths (m_branchOps P)) = length (branch_lengths (m_branchOps Q))"
    by (rule mset_eq_length)
  then show "length (m_branchOps P) = length (m_branchOps Q)" by (simp add: branch_lengths_def)
  have "mset (map snd (branch_lengths (m_branchOps P))) = mset (map snd (branch_lengths (m_branchOps Q)))"
    using b by (metis mset_map)
  then have "mset (map (\<lambda>x. length (snd x)) (m_branchOps P))
       = mset (map (\<lambda>x. length (snd x)) (m_branchOps Q))"
    by (simp add: branch_lengths_def comp_def)
  then have "sort (map (\<lambda>x. length (snd x)) (m_branchOps P))
       = sort (map (\<lambda>x. length (snd x)) (m_branchOps Q))"
    by (rule sort_mset_cong)
  moreover have "map (\<lambda>x. length (snd x)) (sort_key (\<lambda>x. - int (length (snd x))) m)
       = rev (sort (map (\<lambda>x. length (snd x)) m))" for m :: "(nat \<times> bool list) list"
    by (rule map_sort_key_desc)
  ultimately show "map (\<lambda>x. length (snd x)) (sort_key (\<lambda>x. - int (length (snd x))) (m_branchOps P))
         = map (\<lambda>x. length (snd x)) (sort_key (\<lambda>x. - int (length (snd x))) (m_branchOps Q))"
    by simp
qed

lemma control_section_cong:
  assumes "same_aggregate P Q"
  shows "\<exists>co co'. control_section P = Inr co \<and> control_section Q = Inr co' \<and>
           total_unique_branches co = total_unique_branches co' \<and>
           unique_branch_addresses co = unique_branch_addresses co'"
proof -
  note c = control_counts_cong[OF assms]
  have l: "map (\<lambda>x. length (snd x)) (m_branchOps P) = map snd (branch_lengths (m_branchOps P))"
    "map (\<lambda>x. length (snd x)) (m_branchOps Q) = map snd (branch_lengths (m_branchOps Q))"
    by (simp_all add: branch_lengths_def comp_def)
  have "mset (branch_lengths (m_branchOps P)) = mset (branch_lengths (m_branchOps Q))"
    using assms by (simp add: same_aggregate_def)
  then have b: "mset (map snd (branch_lengths (m_branchOps P))) = mset (map snd (branch_lengths (m_branchOps Q)))"
    by (metis mset_map)
  have "sort (map (\<lambda>x. length (snd x)) (m_branchOps P)) = sort (map (\<lambda>x. length (snd x)) (m_branchOps Q))"
    unfolding l by (rule sort_mset_cong) (rule b)
  moreover have "sum_list (map (\<lambda>x. length (snd x)) (m_branchOps P))
        = sum_list (map (\<lambda>x. length (snd x)) (m_branchOps Q))"
    unfolding l using b by (metis sum_mset_sum_list)
  ultimately show ?thesis
    by (simp add: control_section_value c(1))
qed

lemma rows_cong:
  assumes "compute ms = compute ms'" "parallelism ms = parallelism ms'" "memory ms = memory ms'"
    and "total_unique_branches (control ms) = total_unique_branches (control ms')"
    and "unique_branch_addresses (control ms) = unique_branch_addresses (control ms')"
    and "m_threads_invoked P = m_threads_invoked Q" "m_barriers_hit P = m_barriers_hit Q"
    and "m_global_memory_access P = m_global_memory_access Q"
    and "m_local_memory_access P = m_local_memory_access Q"
    and "m_constant_memory_access P = m_constant_memory_access Q"
  shows "filter (\<lambda>line. fst line \<notin> set branch_entropy_labels) (stdout_lines P ms)
         = filter (\<lambda>line. fst line \<notin> set branch_entropy_labels) (stdout_lines Q ms') \<and>
         filter (\<lambda>row. fst row \<notin> set branch_entropy_labels) (csv_rows P ms)
         = filter (\<lambda>row. fst row \<notin> set branch_entropy_labels) (csv_rows Q ms')"
  using assms
  by (simp add: branch_entropy_labels_def stdout_lines_def csv_rows_def Let_def comp_def)

lemma tables_cong:
  assumes "same_aggregate P Q"
  shows "mset (sort_by_count (m_computeOps P)) = mset (sort_by_count (m_computeOps Q))"
    and "map snd (sort_by_count (m_computeOps P)) = map snd (sort_by_count (m_computeOps Q))"
    and "mset (map (\<lambda>x. (fst x, length (snd x)))
                 (sort_key (\<lambda>x. - int (length (snd x))) (m_branchOps P)))
         = mset (map (\<lambda>x. (fst x, length (snd x)))
                 (sort_key (\<lambda>x. - int (length (snd x))) (m_branchOps Q)))"
    and "map snd (map (\<lambda>x. (fst x, length (snd x)))
                 (sort_key (\<lambda>x. - int (length (snd x))) (m_branchOps P)))
         = map snd (map (\<lambda>x. (fst x, length (snd x)))
                 (sort_key (\<lambda>x. - int (length (snd x))) (m_branchOps Q)))"
proof -
  have c: "mset (m_computeOps P) = mset (m_computeOps Q)"
    using assms by (simp add: same_aggregate_def)
  show "mset (sort_by_count (m_computeOps P)) = mset (sort_by_count (m_computeOps Q))"
    by (simp add: sort_by_count_def c)
  show "map snd (sort_by_count (m_computeOps P)) = map snd (sort_by_count (m_computeOps Q))"
    by (rule counts_cong[OF c])
  have b: "mset (branch_lengths (m_branchOps P)) = mset (branch_lengths (m_branchOps Q))"
    using assms by (simp add: same_aggregate_def)
  have "mset (map (\<lambda>x. (fst x, length (snd x))) (sort_key f m))
        = mset (branch_lengths m)" for f :: "nat \<times> bool list \<Rightarrow> int" and m
    by (simp add: branch_lengths_def)
  then show "mset (map (\<lambda>x. (fst x, length (snd x)))
                 (sort_key (\<lambda>x. - int (length (snd x))) (m_branchOps P)))
         = mset (map (\<lambda>x. (fst x, length (snd x)))
                 (sort_key (\<lambda>x. - int (length (snd x))) (m_branchOps Q)))"
    by (simp only: b)
  show "map snd (map (\<lambda>x. (fst x, length (snd x)))
                 (sort_key (\<lambda>x. - int (length (snd x))) (m_branchOps P)))
         = map snd (map (\<lambda>x. (fst x, length (snd x)))
                 (sort_key (\<lambda>x. - int (length (snd x))) (m_branchOps Q)))"
    using control_counts_cong(2)[OF assms] by (simp add: comp_def)
qed

subsection \<open>The two orders of two work-groups\<close>

lemma replicate_15: "replicate 15 x = [x, x, x, x, x, x, x, x, x, x, x, x, x, x, x]"
  by (simp add: numeral_eq_Suc)

lemma log_2_sixteenth: "log 2 (1 / 16 :: real) = - 4"
proof -
  have "log 2 ((2::real) ^ 4) = real 4 * log 2 2" by (rule log_nat_power) simp
  then have "log 2 (16::real) = 4" by simp
  then show ?thesis by (simp add: log_divide)
qed

lemma merge_order_ab_entropy:
  "emitted_branch_entropy merge_order_ab =
     Inr [(Some [Num (Fin (1 / 4))], Some (Num (Fin (1 / 4))), Some (Num (Fin (1 / 16))))]"
  unfolding merge_order_ab_def branch_group_def replicate_15
  by (simp add: emitted_branch_entropy_def branch_instruction_def hook_defs relabel_loop_0
      report_defs csv_rows_def stdout_lines_def branch_step_def history_patterns_def
      current_pattern_def history_m_def probability_of_taken_def log_2_sixteenth
      upt_rec[of _ "numeral _"] upt_rec[of _ "Suc _"])

lemma merge_order_ba_entropy:
  "emitted_branch_entropy merge_order_ba =
     Inr [(Some [Num (Fin (1 / 2))], Some (Num (Fin (1 / 2))), Some (Num (Fin (1 / 8))))]"
  unfolding merge_order_ba_def branch_group_def replicate_15
  by (simp add: emitted_branch_entropy_def branch_instruction_def hook_defs relabel_loop_0
      report_defs csv_rows_def stdout_lines_def branch_step_def history_patterns_def
      current_pattern_def history_m_def probability_of_taken_def log_2_sixteenth
      upt_rec[of _ "numeral _"] upt_rec[of _ "Suc _"])

lemma group_workers:
  "instructionsBetweenBarriers group_a_worker = [3]"
  "instructionsPerWorkitem group_a_worker = [3]"
  "instructionWidth group_a_worker = [(1, 3)]"
  "branchOps group_a_worker = [(42, [True, False])]"
  "instructionsBetweenBarriers group_b_worker = [16]"
  "instructionsPerWorkitem group_b_worker = [16]"
  "instructionWidth group_b_worker = [(1, 16)]"
  "branchOps group_b_worker = [(42, replicate 15 False)]"
  unfolding group_a_worker_def group_b_worker_def worker_after_def branch_group_def replicate_15
  by (simp_all add: branch_instruction_def hook_defs)

lemma kernelBegin_empties:
  assumes "kernelBegin name p = Inr p0"
  shows "m_computeOps p0 = []" "m_branchOps p0 = []" "m_instructionWidth p0 = []"
    "m_loadInstructionLabels p0 = []" "m_storeInstructionLabels p0 = []"
  using assms by (auto simp: kernelBegin_def ebind_def Let_def split: sum.splits)

lemma order_free_report_returns:
  assumes "m_instructionsToBarrier p \<noteq> []" "m_instructionsPerWorkitem p \<noteq> []"
    "m_instructionWidth p \<noteq> []"
  shows "\<exists>r. order_free_report p = Inr r"
proof -
  obtain r p' where "kernelEnd p = Inr (r, p')" using kernelEnd_returns[OF assms] by blast
  then show ?thesis by (simp add: order_free_report_def ebind_def)
qed

lemma merge_order_xy_names:
  "emitted_covering_opcodes merge_order_xy = Inr [[''fmul'', ''add'']]"
  unfolding merge_order_xy_def tie_group_def replicate_4
  by (simp add: emitted_covering_opcodes_def op_instruction_def add_instruction_def hook_defs
      relabel_loop_0 report_defs)

lemma merge_order_yx_names:
  "emitted_covering_opcodes merge_order_yx = Inr [[''fmul'', ''sub'']]"
  unfolding merge_order_yx_def tie_group_def replicate_4
  by (simp add: emitted_covering_opcodes_def op_instruction_def add_instruction_def hook_defs
      relabel_loop_0 report_defs)

text \<open>
  Claim C9, as stated: for every kernel invocation and every permutation of the order in
  which worker states are merged at \<^verbatim>\<open>workGroupComplete\<close>, all emitted metrics are
  identical. Two kinds of output are not.

  The branch entropies: the outcomes of the workers at one branch line are concatenated in
  the order of the merges, and the windows of 16 outcomes run across the boundary between
  two workers. With one work-group contributing the outcomes taken, not taken and another
  contributing 15 outcomes not taken, the order A, B gives the windows \<open>1000000000000000\<close>
  and \<open>0000000000000000\<close> (Yokota entropy 1/4, average linear entropy 1/16), whereas the
  order B, A gives the windows \<open>0000000000000001\<close> and \<open>0000000000000010\<close> (Yokota entropy
  1/2, average linear entropy 1/8).

  The order of the rows of equal count in the sorted tables, and with it the names of the
  opcodes that cover 90%: the maps are filled in the order of the merges. With one
  work-group executing four \<open>fmul\<close> and one \<open>add\<close> and another four \<open>fmul\<close> and one \<open>sub\<close>,
  nine of the ten instructions are to be covered; the list is \<open>fmul, add\<close> in the order X, Y
  and \<open>fmul, sub\<close> in the order Y, X.
\<close>

theorem merge_order_counterexample:
  "emitted_branch_entropy merge_order_ab =
     Inr [(Some [Num (Fin (1 / 4))], Some (Num (Fin (1 / 4))), Some (Num (Fin (1 / 16))))] \<and>
   emitted_branch_entropy merge_order_ba =
     Inr [(Some [Num (Fin (1 / 2))], Some (Num (Fin (1 / 2))), Some (Num (Fin (1 / 8))))] \<and>
   emitted_branch_entropy merge_order_ab \<noteq> emitted_branch_entropy merge_order_ba \<and>
   emitted_covering_opcodes merge_order_xy = Inr [[''fmul'', ''add'']] \<and>
   emitted_covering_opcodes merge_order_yx = Inr [[''fmul'', ''sub'']] \<and>
   emitted_covering_opcodes merge_order_xy \<noteq> emitted_covering_opcodes merge_order_yx"
  by (simp add: merge_order_ab_entropy merge_order_ba_entropy merge_order_xy_names
      merge_order_yx_names)

text \<open>
  Claim C9, amended: for every kernel invocation and every permutation of the order in which
  worker states are merged at \<^verbatim>\<open>workGroupComplete\<close>, the report of \<^verbatim>\<open>kernelEnd\<close> has the same
  value in every line of standard output and every CSV row other than the branch entropies
  (\<open>Yokota Branch Entropy\<close>, \<open>Yokota Branch Entropy per Workload\<close>,
  \<open>Average Linear Branch Entropy\<close>, \<open>branch entropy (yokota)\<close> and
  \<open>branch entropy (average linear)\<close>); the table of opcodes and the table of branch lines
  have the same rows and the same column of counts, the order of the rows of equal count
  apart; the number of opcodes that cover 90% is the same, their names apart; and
  \<^verbatim>\<open>kernelEnd\<close> fails for one order exactly when it fails for the other. Means and deviations
  are read in real arithmetic.
\<close>

theorem merge_order_invariance:
  assumes "kernelBegin name p = Inr p0" "mset ws = mset ws'"
  shows "order_free_report (fold workGroupComplete ws p0)
         = order_free_report (fold workGroupComplete ws' p0)"
proof -
  let ?P = "fold workGroupComplete ws p0" and ?Q = "fold workGroupComplete ws' p0"
  have same: "same_aggregate ?P ?Q"
    by (rule permuted_merges) (simp_all add: assms(2) kernelBegin_empties[OF assms(1)])
  note sc = same[unfolded same_aggregate_def]
  have c: "compute_section ?P = compute_section ?Q" by (rule compute_section_cong[OF same])
  have pa: "parallelism_section ?P n = parallelism_section ?Q n" for n
    by (rule parallelism_section_cong[OF same])
  have me: "memory_section ?P = memory_section ?Q" by (rule memory_section_cong[OF same])
  obtain co co' where co: "control_section ?P = Inr co" "control_section ?Q = Inr co'"
    "total_unique_branches co = total_unique_branches co'"
    "unique_branch_addresses co = unique_branch_addresses co'"
    using control_section_cong[OF same] by blast
  obtain m where m: "memory_section ?Q = Inr m" by (simp add: memory_section_value)
  show ?thesis
  proof (cases "compute_section ?Q")
    case (Inl e)
    then show ?thesis
      by (simp add: order_free_report_def kernelEnd_def kernelEnd_metrics_def ebind_def c)
  next
    case (Inr cr)
    show ?thesis
    proof (cases "parallelism_section ?Q (total_instruction_count cr)")
      case (Inl e)
      then show ?thesis
        by (simp add: order_free_report_def kernelEnd_def kernelEnd_metrics_def ebind_def c pa Inr)
    next
      case pr: (Inr par)
      let ?ms = "\<lparr>compute = cr, parallelism = par, memory = m, control = co\<rparr>"
      let ?ms' = "\<lparr>compute = cr, parallelism = par, memory = m, control = co'\<rparr>"
      have rows: "filter (\<lambda>line. fst line \<notin> set branch_entropy_labels) (stdout_lines ?P ?ms)
           = filter (\<lambda>line. fst line \<notin> set branch_entropy_labels) (stdout_lines ?Q ?ms') \<and>
         filter (\<lambda>row. fst row \<notin> set branch_entropy_labels) (csv_rows ?P ?ms)
           = filter (\<lambda>row. fst row \<notin> set branch_entropy_labels) (csv_rows ?Q ?ms')"
        by (rule rows_cong) (use co sc in simp_all)
      have ends: "kernelEnd_metrics ?P = Inr ?ms" "kernelEnd_metrics ?Q = Inr ?ms'"
        by (simp_all add: kernelEnd_metrics_def ebind_def c pa me m co Inr pr)
      note tc = tables_cong[OF same]
      show ?thesis
        unfolding order_free_report_def kernelEnd_def ends
        by (simp only: ebind_def sum.case prod.case without_order_def report.simps
            rows[THEN conjunct1] rows[THEN conjunct2] tc)
    qed
  qed
qed

text \<open>The two work-groups of the example, merged in either order after \<^verbatim>\<open>kernelBegin\<close>.\<close>

theorem merge_order_invariance_witness:
  "kernelBegin ''K'' constructor = Inr (constructor\<lparr>m_last_kernel_name := ''K''\<rparr>) \<and>
   mset [group_a_worker, group_b_worker] = mset [group_b_worker, group_a_worker] \<and>
   order_free_report (fold workGroupComplete [group_a_worker, group_b_worker]
                        (constructor\<lparr>m_last_kernel_name := ''K''\<rparr>))
     = order_free_report (fold workGroupComplete [group_b_worker, group_a_worker]
                            (constructor\<lparr>m_last_kernel_name := ''K''\<rparr>)) \<and>
   (\<exists>r. order_free_report (fold workGroupComplete [group_a_worker, group_b_worker]
                             (constructor\<lparr>m_last_kernel_name := ''K''\<rparr>)) = Inr r)"
proof -
  have k: "kernelBegin ''K'' constructor = Inr (constructor\<lparr>m_last_kernel_name := ''K''\<rparr>)"
    by (simp add: kernelBegin_def constructor_def relabel_loop_0 ebind_def)
  have m: "mset [group_a_worker, group_b_worker] = mset [group_b_worker, group_a_worker]"
    by (simp add: add_mset_commute)
  have "\<exists>r. order_free_report (fold workGroupComplete [group_a_worker, group_b_worker]
                             (constructor\<lparr>m_last_kernel_name := ''K''\<rparr>)) = Inr r"
    by (rule order_free_report_returns)
       (simp_all add: workGroupComplete_def group_workers constructor_def merge_counts_def)
  then show ?thesis using merge_order_invariance[OF k m] k m by blast
qed

end
